theory Spec2Isabelle
  imports Complex_Main "HOL-Library.Word" "HOL-Library.Log_Nat"
begin

unbundle bit_operations_syntax

section \<open>Convoy physics: data model (convoy.h)\<close>

text \<open>
  The machine integer types of the source. \<open>sint32\<close> values are read with \<open>sint\<close>,
  \<open>uint32\<close> and \<open>uint8\<close> values with \<open>unat\<close>; arithmetic on them wraps around.
\<close>

type_synonym sint32 = "32 word"
type_synonym uint32 = "32 word"
type_synonym uint8 = "8 word"

text \<open>
  Modelled from the spec: the class \<open>float32e8_t\<close> (utils/float32e8_t.h) is not among
  the sources. The specification describes it as "an exact, deterministic
  rational/fixed-precision number type" that "represents rational/decimal values with
  bounded precision and deterministic rounding". Its values are rationals here:
  \<open>float32e8_t(n, d)\<close> is the quotient \<open>n / d\<close>, and the conversion to \<open>sint32\<close>
  truncates (it drops the fractional part, as a C++ cast of a number does). The
  constants of the tables and the comparisons of the force balance are read with the
  operators of the rationals. The bounded precision is the rounding \<open>rnd\<close> that the
  speed conversions below take as their first argument and apply to the result of
  every constructor, conversion and operator of the type.
\<close>

type_synonym float32e8_t = rat

definition float32e8 :: "uint32 \<Rightarrow> uint32 \<Rightarrow> float32e8_t" where
  "float32e8 nominator denominator = of_nat (unat nominator) / of_nat (unat denominator)"

definition half :: float32e8_t where
  "half = float32e8 1 2"

definition to_sint32 :: "float32e8_t \<Rightarrow> sint32" where
  "to_sint32 x = word_of_int (if 0 \<le> x then \<lfloor>x\<rfloor> else \<lceil>x\<rceil>)"

text \<open>
  Modelled from the spec: \<open>rounds_within eps rnd\<close> says that the rounding \<open>rnd\<close> moves no
  value by more than the fraction \<open>eps\<close> of its magnitude (the bounded precision of the
  type). \<open>truncate_mantissa p\<close> is one such rounding: that of a binary floating-point
  number with a mantissa of \<open>p\<close> bits, which scales the magnitude by the power of two
  \<open>mantissa_shift\<close> that brings it to at least \<open>2 ^ (p - 1)\<close> and at most \<open>2 ^ p\<close>, cuts
  the fraction and scales back.
\<close>

definition rounds_within :: "float32e8_t \<Rightarrow> (float32e8_t \<Rightarrow> float32e8_t) \<Rightarrow> bool" where
  "rounds_within eps rnd = (\<forall>x. \<bar>rnd x - x\<bar> \<le> eps * \<bar>x\<bar>)"

definition mantissa_shift :: "nat \<Rightarrow> float32e8_t \<Rightarrow> int" where
  "mantissa_shift p a =
     (if 1 \<le> a then int p - int (floorlog 2 (nat \<lfloor>a\<rfloor>))
      else int p - 1 + int (floorlog 2 (nat \<lfloor>1 / a\<rfloor>)))"

definition truncate_mantissa :: "nat \<Rightarrow> float32e8_t \<Rightarrow> float32e8_t" where
  "truncate_mantissa p x =
     sgn x * of_int \<lfloor>\<bar>x\<bar> * 2 powi mantissa_shift p \<bar>x\<bar>\<rfloor> / 2 powi mantissa_shift p \<bar>x\<bar>"

subsection \<open>Constants\<close>

definition CF_TRACK :: float32e8_t where "CF_TRACK = of_nat (unat (13 :: uint32))"
definition CF_MAGLEV :: float32e8_t where "CF_MAGLEV = of_nat (unat (10 :: uint32))"
definition CF_ROAD :: float32e8_t where "CF_ROAD = float32e8 252 100"
definition CF_WATER :: float32e8_t where "CF_WATER = of_nat (unat (25 :: uint32))"
definition CF_AIR :: float32e8_t where "CF_AIR = of_nat (unat (1 :: uint32))"

definition FR_MAGLEV :: float32e8_t where "FR_MAGLEV = float32e8 15 10000"
definition FR_TRACK :: float32e8_t where "FR_TRACK = float32e8 51 10000"
definition FR_ROAD :: float32e8_t where "FR_ROAD = float32e8 15 1000"
definition FR_WATER :: float32e8_t where "FR_WATER = float32e8 1 1000"
definition FR_AIR :: float32e8_t where "FR_AIR = float32e8 1 1000"

definition KMH_SPEED_UNLIMITED :: sint32 where
  "KMH_SPEED_UNLIMITED = 300000"

subsection \<open>Conversion between simutrans speed and m/s\<close>

text \<open>
  The macro \<open>VEHICLE_SPEED_FACTOR\<close> is not defined in the sources; it is an argument
  of the conversions. The products \<open>(uint32) 10 * VEHICLE_SPEED_FACTOR\<close> and
  \<open>(uint32) 36 * 1024\<close> are unsigned 32-bit products. Every \<open>float32e8_t\<close> result is
  rounded by \<open>rnd\<close>: the two quotients of the constructors, the conversion of the
  \<open>sint32\<close> speed, the two products and the sum with \<open>half\<close>; \<open>half\<close> itself is
  \<open>1 / 2\<close>. With \<open>rnd\<close> the identity the arithmetic is exact.
\<close>

definition simspeed2ms :: "(float32e8_t \<Rightarrow> float32e8_t) \<Rightarrow> uint32 \<Rightarrow> float32e8_t" where
  "simspeed2ms rnd VEHICLE_SPEED_FACTOR = rnd (float32e8 (10 * VEHICLE_SPEED_FACTOR) (36 * 1024))"

definition ms2simspeed :: "(float32e8_t \<Rightarrow> float32e8_t) \<Rightarrow> uint32 \<Rightarrow> float32e8_t" where
  "ms2simspeed rnd VEHICLE_SPEED_FACTOR = rnd (float32e8 (36 * 1024) (10 * VEHICLE_SPEED_FACTOR))"

definition speed_to_v :: "(float32e8_t \<Rightarrow> float32e8_t) \<Rightarrow> uint32 \<Rightarrow> sint32 \<Rightarrow> float32e8_t" where
  "speed_to_v rnd VEHICLE_SPEED_FACTOR speed =
     rnd (simspeed2ms rnd VEHICLE_SPEED_FACTOR * rnd (of_int (sint speed)))"

definition v_to_speed :: "(float32e8_t \<Rightarrow> float32e8_t) \<Rightarrow> uint32 \<Rightarrow> float32e8_t \<Rightarrow> sint32" where
  "v_to_speed rnd VEHICLE_SPEED_FACTOR v =
     to_sint32 (rnd (rnd (ms2simspeed rnd VEHICLE_SPEED_FACTOR * v) + half))"

subsection \<open>vehicle\_summary\_t\<close>

text \<open>
  The class \<open>vehikel_besch_t\<close> (besch/vehikel_besch.h) is not among the sources; a vehicle
  descriptor is the record of the three getters that \<open>add_vehicle\<close> reads.
  \<open>get_length\<close> is a \<open>uint8\<close> (it is what \<open>update_summary\<close> takes as
  \<open>length_of_last_vehicle\<close>); \<open>get_gewicht\<close> and \<open>get_geschw\<close> are taken at the type
  of the fields they are combined with.
\<close>

record vehikel_besch_t =
  get_length :: uint8
  get_gewicht :: sint32
  get_geschw :: sint32

text \<open>
  The field \<open>length\<close> of the source is \<open>length_sum\<close> here (\<open>length\<close> is the list
  function of HOL).
\<close>

record vehicle_summary_t =
  length_sum :: uint32
  tiles :: uint32
  weight :: sint32
  max_speed :: sint32

text \<open>The function \<open>min\<close> of the source, on two signed 32-bit values.\<close>

definition min_sint32 :: "sint32 \<Rightarrow> sint32 \<Rightarrow> sint32" where
  "min_sint32 a b = (if sint a < sint b then a else b)"

definition clear :: "vehicle_summary_t \<Rightarrow> vehicle_summary_t" where
  "clear s = s\<lparr>length_sum := 0, tiles := 0, weight := 0, max_speed := KMH_SPEED_UNLIMITED\<rparr>"

definition add_vehicle :: "vehikel_besch_t \<Rightarrow> vehicle_summary_t \<Rightarrow> vehicle_summary_t" where
  "add_vehicle b s =
     s\<lparr>length_sum := length_sum s + ucast (get_length b),
       weight := weight s + get_gewicht b,
       max_speed := min_sint32 (max_speed s) (get_geschw b)\<rparr>"

text \<open>A sequence of \<open>add_vehicle\<close> calls, one for each vehicle of a list, in order.\<close>

fun add_vehicles :: "vehikel_besch_t list \<Rightarrow> vehicle_summary_t \<Rightarrow> vehicle_summary_t" where
  "add_vehicles [] s = s"
| "add_vehicles (b # bs) s = add_vehicles bs (add_vehicle b s)"

text \<open>
  The macro \<open>OBJECT_OFFSET_STEPS\<close> is not defined in the sources; it is the first
  argument of \<open>update_summary\<close>. \<open>max(8, length_of_last_vehicle) - length_of_last_vehicle\<close>
  is an \<open>int\<close> between 0 and 8; the sum is a \<open>uint32\<close> sum and the division an
  unsigned division (the division by zero of the source is undefined; \<open>div\<close> gives 0).
\<close>

definition update_summary :: "uint32 \<Rightarrow> uint8 \<Rightarrow> vehicle_summary_t \<Rightarrow> vehicle_summary_t" where
  "update_summary OBJECT_OFFSET_STEPS length_of_last_vehicle s =
     s\<lparr>tiles := (length_sum s
                 + of_nat (max 8 (unat length_of_last_vehicle) - unat length_of_last_vehicle)
                 + OBJECT_OFFSET_STEPS - 1) div OBJECT_OFFSET_STEPS,
       weight := weight s * 1000\<rparr>"

subsection \<open>adverse\_summary\_t\<close>

text \<open>
  The enumeration \<open>waytype_t\<close> (simtypes.h) is not among the sources; these are the
  enumerators that the sources name. \<open>set_by_waytype\<close> names eight of them; every other
  one (here \<open>road_wt\<close> and \<open>invalid_wt\<close>) takes the \<open>default\<close> branch.
\<close>

datatype waytype_t =
  invalid_wt | road_wt | track_wt | water_wt | overheadlines_wt | monorail_wt
  | maglev_wt | tram_wt | narrowgauge_wt | air_wt

text \<open>
  The field \<open>max_speed\<close> of \<open>adverse_summary_t\<close> is \<open>adverse_max_speed\<close> here
  (\<open>max_speed\<close> is the field of \<open>vehicle_summary_t\<close>).
\<close>

record adverse_summary_t =
  cf :: float32e8_t
  fr :: float32e8_t
  br :: float32e8_t
  adverse_max_speed :: sint32

fun set_by_waytype :: "waytype_t \<Rightarrow> adverse_summary_t \<Rightarrow> adverse_summary_t" where
  "set_by_waytype air_wt a = a\<lparr>cf := CF_AIR, fr := FR_AIR, br := float32e8 2 1\<rparr>"
| "set_by_waytype water_wt a = a\<lparr>cf := CF_WATER, fr := FR_WATER, br := float32e8 1 10\<rparr>"
| "set_by_waytype track_wt a = a\<lparr>cf := CF_TRACK, fr := FR_TRACK, br := float32e8 1 2\<rparr>"
| "set_by_waytype narrowgauge_wt a = a\<lparr>cf := CF_TRACK, fr := FR_TRACK, br := float32e8 1 2\<rparr>"
| "set_by_waytype overheadlines_wt a = a\<lparr>cf := CF_TRACK, fr := FR_TRACK, br := float32e8 1 2\<rparr>"
| "set_by_waytype tram_wt a = a\<lparr>cf := CF_TRACK, fr := FR_TRACK, br := float32e8 1 1\<rparr>"
| "set_by_waytype monorail_wt a = a\<lparr>cf := CF_TRACK, fr := FR_TRACK, br := float32e8 1 1\<rparr>"
| "set_by_waytype maglev_wt a = a\<lparr>cf := CF_MAGLEV, fr := FR_MAGLEV, br := float32e8 12 10\<rparr>"
| "set_by_waytype _ a = a\<lparr>cf := CF_ROAD, fr := FR_ROAD, br := float32e8 1 1\<rparr>"

text \<open>The three coefficients that \<open>set_by_waytype\<close> selects, as a triple.\<close>

definition coefficients :: "adverse_summary_t \<Rightarrow> float32e8_t \<times> float32e8_t \<times> float32e8_t" where
  "coefficients a = (cf a, fr a, br a)"

subsection \<open>freight\_summary\_t and weight\_summary\_t\<close>

record freight_summary_t =
  min_freight_weight :: sint32
  max_freight_weight :: sint32

text \<open>
  The field \<open>weight\<close> of \<open>weight_summary_t\<close> is \<open>weight_kg\<close> here (\<open>weight\<close> is the
  field of \<open>vehicle_summary_t\<close>).
\<close>

record weight_summary_t =
  weight_kg :: sint32
  weight_cos :: float32e8_t
  weight_sin :: float32e8_t

section \<open>convoy\_t::get\_force\<close>

text \<open>
  \<open>get_starting_force\<close> and \<open>get_force_summary\<close> are virtual: they are arguments here,
  as functions that return their value and the state of the convoy after the call
  (\<open>lazy_convoy_t::get_starting_force\<close> writes its cache). \<open>abs\<close> is the absolute
  value of a \<open>float32e8_t\<close>.
\<close>

definition get_force ::
  "('s \<Rightarrow> sint32 \<times> 's) \<Rightarrow> (sint32 \<Rightarrow> 's \<Rightarrow> sint32 \<times> 's) \<Rightarrow> float32e8_t \<Rightarrow> 's \<Rightarrow> sint32 \<times> 's" where
  "get_force get_starting_force get_force_summary speed s =
     (let v = to_sint32 \<bar>speed\<bar>
      in if v = 0 then get_starting_force s
         else (case get_force_summary v s of (f, s') \<Rightarrow> (f * 1000, s')))"

section \<open>convoy\_t::calc\_max\_speed\<close>

text \<open>The scale between km/h and m/s, and the gravitation constant of the header comment.\<close>

definition kmh2ms :: float32e8_t where "kmh2ms = float32e8 10 36"
definition ms2kmh :: float32e8_t where "ms2kmh = float32e8 36 10"

definition g_accel :: float32e8_t where "g_accel = float32e8 981 100"

text \<open>
  The force in N of a convoy whose force curve is \<open>get_force_summary\<close>, by \<open>get_force\<close>
  with \<open>convoy_t::get_starting_force\<close>, which is \<open>get_force_summary(0) * 1000\<close>.
\<close>

definition curve_force :: "(sint32 \<Rightarrow> sint32) \<Rightarrow> float32e8_t \<Rightarrow> sint32" where
  "curve_force get_force_summary v =
     fst (get_force (\<lambda>s. (get_force_summary 0 * 1000, s)) (\<lambda>x s. (get_force_summary x, s)) v ())"

text \<open>
  The engine force at speed \<open>v\<close> covers the resistance \<open>cf * v * v + Frs\<close> (the sum of
  \<open>calc_speed_holding_force\<close>).
\<close>

definition can_hold :: "(sint32 \<Rightarrow> sint32) \<Rightarrow> adverse_summary_t \<Rightarrow> float32e8_t \<Rightarrow> float32e8_t \<Rightarrow> bool" where
  "can_hold get_force_summary a Frs v =
     (cf a * v * v + Frs \<le> of_int (sint (curve_force get_force_summary v)))"

text \<open>
  Modelled from the spec: the body of \<open>convoy_t::calc_max_speed\<close> (convoy.cc) is not among
  the sources, which hold its declaration and its caller
  \<open>lazy_convoy_t::calc_max_speed\<close>. The specification: "solve the force balance
  engine_force(v) = air_drag(v) + roll+slope_resistance for the largest v the convoy's
  force curve can sustain, clipped to the convoy's configured speed cap. Uses a bounded
  iterative/bisection search over the engine force-vs-speed curve (force is supplied
  via a virtual per-speed lookup)", and "search loops over the force curve must be
  capped by a fixed iteration bound". The search is the loop
  \<^verbatim>\<open>while (i < MAX_ITERATIONS && vu - vl > tolerance) { vm = (vl + vu) / 2; ...; i++; }\<close>
  which halves the interval between a speed the convoy holds and one it does not; it
  returns the lower end and the number of iterations. The iteration bound and the
  tolerance, which the specification does not give, are arguments. Nothing but the
  bound stops the loop when the tolerance is 0, so the loop is a partial function:
  \<open>None\<close> is a search that does not return.
\<close>

partial_function (option) search_max_speed ::
  "(sint32 \<Rightarrow> sint32) \<Rightarrow> adverse_summary_t \<Rightarrow> float32e8_t \<Rightarrow> float32e8_t \<Rightarrow> nat
   \<Rightarrow> nat \<Rightarrow> float32e8_t \<Rightarrow> float32e8_t \<Rightarrow> (float32e8_t \<times> nat) option" where
  "search_max_speed get_force_summary a Frs tolerance MAX_ITERATIONS i vl vu =
     (if MAX_ITERATIONS \<le> i \<or> vu - vl \<le> tolerance then Some (vl, i)
      else (let vm = (vl + vu) / 2
            in if can_hold get_force_summary a Frs vm
               then search_max_speed get_force_summary a Frs tolerance MAX_ITERATIONS (Suc i) vm vu
               else search_max_speed get_force_summary a Frs tolerance MAX_ITERATIONS (Suc i) vl vm))"

text \<open>
  Modelled from the spec: \<open>convoy_t::calc_max_speed\<close>, in km/h. The speed cap is
  returned when the convoy holds it; otherwise the search runs between 0 and the cap,
  and its result, converted to km/h and rounded, is clipped to the cap.
\<close>

definition calc_max_speed ::
  "float32e8_t \<Rightarrow> nat \<Rightarrow> (sint32 \<Rightarrow> sint32) \<Rightarrow> vehicle_summary_t \<Rightarrow> adverse_summary_t
   \<Rightarrow> weight_summary_t \<Rightarrow> sint32 option" where
  "calc_max_speed tolerance MAX_ITERATIONS get_force_summary v a wgt =
     (let Frs = g_accel * (fr a * weight_cos wgt + weight_sin wgt);
          vcap = kmh2ms * of_int (sint (max_speed v))
      in if can_hold get_force_summary a Frs vcap then Some (max_speed v)
         else (case search_max_speed get_force_summary a Frs tolerance MAX_ITERATIONS 0 0 vcap of
                 None \<Rightarrow> None
               | Some (vmax, n) \<Rightarrow> Some (min_sint32 (max_speed v) (to_sint32 (vmax * ms2kmh + half)))))"

section \<open>lazy\_convoy\_t\<close>

subsection \<open>State\<close>

definition cd_vehicle_summary :: "32 word" where "cd_vehicle_summary = 0x01"
definition cd_adverse_summary :: "32 word" where "cd_adverse_summary = 0x02"
definition cd_freight_summary :: "32 word" where "cd_freight_summary = 0x04"
definition cd_weight_summary :: "32 word" where "cd_weight_summary = 0x08"
definition cd_starting_force :: "32 word" where "cd_starting_force = 0x10"
definition cd_continuous_power :: "32 word" where "cd_continuous_power = 0x20"

text \<open>
  The members of a \<open>lazy_convoy_t\<close>: \<open>vehicle\<close> and \<open>adverse\<close> of \<open>convoy_t\<close>, its
  own \<open>freight\<close>, \<open>starting_force\<close>, \<open>continuous_power\<close> and \<open>is_valid\<close> (an \<open>int\<close>),
  and \<open>derived\<close>, the members of the descendant class.
\<close>

record 'e lazy_convoy_t =
  vehicle :: vehicle_summary_t
  adverse :: adverse_summary_t
  freight :: freight_summary_t
  starting_force :: sint32
  continuous_power :: sint32
  is_valid :: "32 word"
  derived :: 'e

text \<open>
  The members of an \<open>existing_convoy_t\<close>: the convoy it wraps and the cached weight
  summary (the member \<open>weight\<close> of the source).
\<close>

record 'c existing_members =
  convoy :: 'c
  weight_summary :: weight_summary_t

type_synonym 'c existing_convoy_t = "'c existing_members lazy_convoy_t"

text \<open>"A summary is valid if \<open>(is_valid & cd) != 0\<close>."\<close>

definition valid :: "32 word \<Rightarrow> 'e lazy_convoy_t \<Rightarrow> bool" where
  "valid cd s = (is_valid s AND cd \<noteq> 0)"

subsection \<open>Invalidation\<close>

definition invalidate_vehicle_summary :: "'e lazy_convoy_t \<Rightarrow> 'e lazy_convoy_t" where
  "invalidate_vehicle_summary s =
     s\<lparr>is_valid := is_valid s AND NOT (cd_vehicle_summary OR cd_adverse_summary
          OR cd_weight_summary OR cd_starting_force OR cd_continuous_power)\<rparr>"

definition invalidate_adverse_summary :: "'e lazy_convoy_t \<Rightarrow> 'e lazy_convoy_t" where
  "invalidate_adverse_summary s =
     s\<lparr>is_valid := is_valid s AND NOT (cd_adverse_summary OR cd_weight_summary)\<rparr>"

definition invalidate_freight_summary :: "'e lazy_convoy_t \<Rightarrow> 'e lazy_convoy_t" where
  "invalidate_freight_summary s = s\<lparr>is_valid := is_valid s AND NOT cd_freight_summary\<rparr>"

definition invalidate_weight_summary :: "'c existing_convoy_t \<Rightarrow> 'c existing_convoy_t" where
  "invalidate_weight_summary s = s\<lparr>is_valid := is_valid s AND NOT cd_weight_summary\<rparr>"

subsection \<open>Validation\<close>

text \<open>
  The update methods are virtual, implemented by the descendants: they are arguments
  here. An update method receives the object (with the validity bit already set) and
  the summary by reference; it returns the summary it has written and the members of
  the descendant as it leaves them.
\<close>

definition validate_vehicle_summary ::
  "('e lazy_convoy_t \<Rightarrow> vehicle_summary_t \<times> 'e) \<Rightarrow> 'e lazy_convoy_t \<Rightarrow> 'e lazy_convoy_t" where
  "validate_vehicle_summary update_vehicle_summary s =
     (if is_valid s AND cd_vehicle_summary = 0
      then (let s1 = s\<lparr>is_valid := is_valid s OR cd_vehicle_summary\<rparr>
            in case update_vehicle_summary s1 of (v, e) \<Rightarrow> s1\<lparr>vehicle := v, derived := e\<rparr>)
      else s)"

definition validate_adverse_summary ::
  "('e lazy_convoy_t \<Rightarrow> adverse_summary_t \<times> 'e) \<Rightarrow> 'e lazy_convoy_t \<Rightarrow> 'e lazy_convoy_t" where
  "validate_adverse_summary update_adverse_summary s =
     (if is_valid s AND cd_adverse_summary = 0
      then (let s1 = s\<lparr>is_valid := is_valid s OR cd_adverse_summary\<rparr>
            in case update_adverse_summary s1 of (a, e) \<Rightarrow> s1\<lparr>adverse := a, derived := e\<rparr>)
      else s)"

definition validate_freight_summary ::
  "('e lazy_convoy_t \<Rightarrow> freight_summary_t \<times> 'e) \<Rightarrow> 'e lazy_convoy_t \<Rightarrow> 'e lazy_convoy_t" where
  "validate_freight_summary update_freight_summary s =
     (if is_valid s AND cd_freight_summary = 0
      then (let s1 = s\<lparr>is_valid := is_valid s OR cd_freight_summary\<rparr>
            in case update_freight_summary s1 of (f, e) \<Rightarrow> s1\<lparr>freight := f, derived := e\<rparr>)
      else s)"

text \<open>
  \<open>existing_convoy_t::validate_weight_summary\<close>: the weight summary is a member of the
  descendant, so the update method returns the descendant's members.
\<close>

definition validate_weight_summary ::
  "('c existing_convoy_t \<Rightarrow> 'c existing_members) \<Rightarrow> 'c existing_convoy_t \<Rightarrow> 'c existing_convoy_t" where
  "validate_weight_summary update_weight_summary s =
     (if is_valid s AND cd_weight_summary = 0
      then (let s1 = s\<lparr>is_valid := is_valid s OR cd_weight_summary\<rparr>
            in s1\<lparr>derived := update_weight_summary s1\<rparr>)
      else s)"

subsection \<open>Queries\<close>







subsection \<open>Call counters on the update methods\<close>

text \<open>
  A test counts the calls of an update method with a counter among the members of the
  descendant: \<open>calls\<close> reads the counter, and every call of the update method adds one
  to it.
\<close>

definition counts_calls :: "('e \<Rightarrow> nat) \<Rightarrow> ('e lazy_convoy_t \<Rightarrow> 'v \<times> 'e) \<Rightarrow> bool" where
  "counts_calls calls update = (\<forall>t. calls (snd (update t)) = Suc (calls (derived t)))"

definition counts_weight_calls ::
  "('c existing_members \<Rightarrow> nat) \<Rightarrow> ('c existing_convoy_t \<Rightarrow> 'c existing_members) \<Rightarrow> bool" where
  "counts_weight_calls calls update = (\<forall>t. calls (update t) = Suc (calls (derived t)))"

text \<open>
  A freshly constructed object: the constructor \<open>lazy_convoy_t()\<close> sets \<open>is_valid\<close>
  to 0. The members it does not initialise are zero here.
\<close>

definition new_lazy_convoy :: "'e \<Rightarrow> 'e lazy_convoy_t" where
  "new_lazy_convoy e =
     \<lparr>vehicle = \<lparr>length_sum = 0, tiles = 0, weight = 0, max_speed = 0\<rparr>,
      adverse = \<lparr>cf = 0, fr = 0, br = 0, adverse_max_speed = 0\<rparr>,
      freight = \<lparr>min_freight_weight = 0, max_freight_weight = 0\<rparr>,
      starting_force = 0, continuous_power = 0, is_valid = 0, derived = e\<rparr>"


text \<open>Update methods whose descendant has one member, the counter of their calls.\<close>

definition counting_update_vehicle :: "nat lazy_convoy_t \<Rightarrow> vehicle_summary_t \<times> nat" where
  "counting_update_vehicle t = (clear (vehicle t), Suc (derived t))"

definition counting_update_adverse :: "nat lazy_convoy_t \<Rightarrow> adverse_summary_t \<times> nat" where
  "counting_update_adverse t = (set_by_waytype track_wt (adverse t), Suc (derived t))"

definition counting_update_freight :: "nat lazy_convoy_t \<Rightarrow> freight_summary_t \<times> nat" where
  "counting_update_freight t = (freight t, Suc (derived t))"

definition counting_update_weight :: "nat existing_convoy_t \<Rightarrow> nat existing_members" where
  "counting_update_weight t = (derived t)\<lparr>convoy := Suc (convoy (derived t))\<rparr>"

definition new_existing_members :: "nat existing_members" where
  "new_existing_members =
     \<lparr>convoy = 0, weight_summary = \<lparr>weight_kg = 0, weight_cos = 0, weight_sin = 0\<rparr>\<rparr>"



section \<open>Properties of the vehicle summary\<close>

text \<open>
  C3. After \<open>vehicle_summary_t::clear\<close>, with no vehicle added, the summary holds the
  sentinel of an unlimited speed: \<open>max_speed\<close> is \<open>KMH_SPEED_UNLIMITED\<close>, which is
  300000 km/h, and \<open>length\<close>, \<open>tiles\<close> and \<open>weight\<close> are zero, whatever the summary
  held before. Adding the vehicles of an empty list changes nothing.
\<close>

theorem clear_unlimited_sentinel:
  "max_speed (clear s) = KMH_SPEED_UNLIMITED
   \<and> sint (max_speed (clear s)) = 300000
   \<and> length_sum (clear s) = 0 \<and> tiles (clear s) = 0 \<and> weight (clear s) = 0
   \<and> add_vehicles [] (clear s) = clear s"
  by (simp add: clear_def KMH_SPEED_UNLIMITED_def)

lemma add_vehicles_length:
  "length_sum (add_vehicles bs s) = length_sum s + (\<Sum>b\<leftarrow>bs. ucast (get_length b))"
  by (induction bs arbitrary: s) (simp_all add: add_vehicle_def add.assoc)

lemma add_vehicles_weight:
  "weight (add_vehicles bs s) = weight s + (\<Sum>b\<leftarrow>bs. get_gewicht b)"
  by (induction bs arbitrary: s) (simp_all add: add_vehicle_def add.assoc)

lemma add_vehicles_tiles: "tiles (add_vehicles bs s) = tiles s"
  by (induction bs arbitrary: s) (simp_all add: add_vehicle_def)

lemma sint_min_sint32: "sint (min_sint32 a b) = min (sint a) (sint b)"
  by (simp add: min_sint32_def min_def)


lemma add_vehicles_max_speed:
  "sint (max_speed (add_vehicles bs s)) = Min (insert (sint (max_speed s)) (sint ` get_geschw ` set bs))"
proof (induction bs arbitrary: s)
  case Nil
  then show ?case by simp
next
  case (Cons b bs)
  have fin: "finite (sint ` get_geschw ` set bs)" by simp
  have "sint (max_speed (add_vehicles (b # bs) s))
      = Min (insert (min (sint (max_speed s)) (sint (get_geschw b))) (sint ` get_geschw ` set bs))"
    using Cons.IH [of "add_vehicle b s"] by (simp add: add_vehicle_def sint_min_sint32)
  also have "\<dots> = Min (insert (sint (max_speed s)) (insert (sint (get_geschw b)) (sint ` get_geschw ` set bs)))"
  proof (cases "set bs = {}")
    case True
    then show ?thesis by (simp add: min_def)
  next
    case False
    then have ne: "sint ` get_geschw ` set bs \<noteq> {}" by simp
    show ?thesis using fin ne by (simp add: Min_insert min.assoc)
  qed
  finally show ?case by simp
qed

lemma unat_sum_list_small:
  fixes f :: "'a \<Rightarrow> 32 word"
  shows "(\<Sum>x\<leftarrow>xs. unat (f x)) < 2 ^ 32 \<Longrightarrow> unat (\<Sum>x\<leftarrow>xs. f x) = (\<Sum>x\<leftarrow>xs. unat (f x))"
proof (induction xs)
  case Nil
  then show ?case by simp
next
  case (Cons x xs)
  then have IH: "unat (\<Sum>x\<leftarrow>xs. f x) = (\<Sum>x\<leftarrow>xs. unat (f x))" by simp
  have "unat (f x + (\<Sum>x\<leftarrow>xs. f x)) = (unat (f x) + unat (\<Sum>x\<leftarrow>xs. f x)) mod 2 ^ 32"
    by (simp add: unat_word_ariths)
  with IH Cons.prems show ?case by simp
qed

lemma sint_sum_list_small:
  fixes f :: "'a \<Rightarrow> 32 word"
  shows "\<forall>x\<in>set xs. 0 \<le> sint (f x) \<Longrightarrow> (\<Sum>x\<leftarrow>xs. sint (f x)) < 2 ^ 31 \<Longrightarrow> sint (\<Sum>x\<leftarrow>xs. f x) = (\<Sum>x\<leftarrow>xs. sint (f x))"
proof (induction xs)
  case Nil
  then show ?case by simp
next
  case (Cons x xs)
  have nonneg: "0 \<le> (\<Sum>x\<leftarrow>xs. sint (f x))"
    using Cons.prems(1) by (intro sum_list_nonneg) auto
  have x0: "0 \<le> sint (f x)" using Cons.prems(1) by simp
  have IH: "sint (\<Sum>x\<leftarrow>xs. f x) = (\<Sum>x\<leftarrow>xs. sint (f x))"
    using Cons.IH Cons.prems x0 by simp
  have "sint (f x + (\<Sum>x\<leftarrow>xs. f x)) = signed_take_bit 31 (sint (f x) + sint (\<Sum>x\<leftarrow>xs. f x))"
    by (simp add: sint_word_ariths)
  also have "\<dots> = sint (f x) + (\<Sum>x\<leftarrow>xs. sint (f x))"
    using IH x0 nonneg Cons.prems(2) by (simp add: signed_take_bit_int_eq_self)
  finally show ?case by simp
qed


lemma Min_insert_cap:
  fixes A :: "int set"
  assumes "finite A" "\<exists>a\<in>A. a \<le> c"
  shows "Min (insert c A) = Min A"
proof -
  from assms obtain a where a: "a \<in> A" "a \<le> c" by blast
  then have ne: "A \<noteq> {}" by blast
  have "Min A \<le> a" using assms(1) a(1) by simp
  then have "Min A \<le> c" using a(2) by simp
  then show ?thesis using assms(1) ne by (simp add: Min_insert min_absorb2 del: Min_insert2)
qed

text \<open>
  C4, as amended. After \<open>clear\<close>, adding the vehicles of a list one by one gives a
  summary whose \<open>length\<close> is the sum of the vehicles' lengths and whose \<open>weight\<close> is
  the sum of their weights, in the 32-bit arithmetic of the fields; the sums are the
  exact ones when they fit the fields (the weights not negative). \<open>max_speed\<close> is the
  minimum of \<open>KMH_SPEED_UNLIMITED\<close> and the vehicles' maximum speeds: the cap
  \<open>KMH_SPEED_UNLIMITED\<close> takes part in the minimum, so \<open>max_speed\<close> is the minimum
  over the vehicles only when one of them is not faster than the cap, and it is the
  cap for an empty list and for vehicles that are all faster.
\<close>

theorem add_vehicles_after_clear:
  "length_sum (add_vehicles bs (clear s)) = (\<Sum>b\<leftarrow>bs. ucast (get_length b))
   \<and> weight (add_vehicles bs (clear s)) = (\<Sum>b\<leftarrow>bs. get_gewicht b)
   \<and> sint (max_speed (add_vehicles bs (clear s)))
       = Min (insert (sint KMH_SPEED_UNLIMITED) (sint ` get_geschw ` set bs))
   \<and> ((\<Sum>b\<leftarrow>bs. unat (get_length b)) < 2 ^ 32 \<longrightarrow>
        unat (length_sum (add_vehicles bs (clear s))) = (\<Sum>b\<leftarrow>bs. unat (get_length b)))
   \<and> ((\<forall>b\<in>set bs. 0 \<le> sint (get_gewicht b)) \<and> (\<Sum>b\<leftarrow>bs. sint (get_gewicht b)) < 2 ^ 31 \<longrightarrow>
        sint (weight (add_vehicles bs (clear s))) = (\<Sum>b\<leftarrow>bs. sint (get_gewicht b)))
   \<and> ((\<exists>b\<in>set bs. sint (get_geschw b) \<le> sint KMH_SPEED_UNLIMITED) \<longrightarrow>
        sint (max_speed (add_vehicles bs (clear s))) = Min (sint ` get_geschw ` set bs))"
proof -
  let ?r = "add_vehicles bs (clear s)"
  have len: "length_sum ?r = (\<Sum>b\<leftarrow>bs. ucast (get_length b))"
    by (simp add: add_vehicles_length clear_def)
  have wgt: "weight ?r = (\<Sum>b\<leftarrow>bs. get_gewicht b)"
    by (simp add: add_vehicles_weight clear_def)
  have spd: "sint (max_speed ?r) = Min (insert (sint KMH_SPEED_UNLIMITED) (sint ` get_geschw ` set bs))"
    by (simp add: add_vehicles_max_speed clear_def)
  have len_exact: "unat (length_sum ?r) = (\<Sum>b\<leftarrow>bs. unat (get_length b))"
    if "(\<Sum>b\<leftarrow>bs. unat (get_length b)) < 2 ^ 32"
  proof -
    have u: "unat (ucast (get_length b) :: uint32) = unat (get_length b)" for b
      by (simp add: unsigned_ucast_eq take_bit_nat_eq_self
            order_less_trans [OF unsigned_less [of "get_length b", simplified]])
    have "(\<Sum>b\<leftarrow>bs. unat (ucast (get_length b) :: uint32)) < 2 ^ 32"
      using that by (simp add: u)
    then have "unat (\<Sum>b\<leftarrow>bs. (ucast (get_length b) :: uint32))
        = (\<Sum>b\<leftarrow>bs. unat (ucast (get_length b) :: uint32))"
      by (rule unat_sum_list_small)
    then show ?thesis by (simp add: len u)
  qed
  have wgt_exact: "sint (weight ?r) = (\<Sum>b\<leftarrow>bs. sint (get_gewicht b))"
    if "\<forall>b\<in>set bs. 0 \<le> sint (get_gewicht b)" "(\<Sum>b\<leftarrow>bs. sint (get_gewicht b)) < 2 ^ 31"
    using sint_sum_list_small [OF that] by (simp add: wgt)
  have spd_exact: "sint (max_speed ?r) = Min (sint ` get_geschw ` set bs)"
    if "\<exists>b\<in>set bs. sint (get_geschw b) \<le> sint KMH_SPEED_UNLIMITED"
  proof -
    have "\<exists>a\<in>sint ` get_geschw ` set bs. a \<le> sint KMH_SPEED_UNLIMITED"
      using that by blast
    then show ?thesis
      using Min_insert_cap [of "sint ` get_geschw ` set bs" "sint KMH_SPEED_UNLIMITED"]
      by (simp add: spd)
  qed
  show ?thesis
    using len wgt spd len_exact wgt_exact spd_exact by blast
qed

theorem add_vehicles_after_clear_witness:
  "unat (length_sum (add_vehicles
      [\<lparr>get_length = 8, get_gewicht = 20, get_geschw = 120\<rparr>,
       \<lparr>get_length = 4, get_gewicht = 15, get_geschw = 80\<rparr>]
      (clear \<lparr>length_sum = 7, tiles = 7, weight = 7, max_speed = 7\<rparr>))) = 12
   \<and> sint (weight (add_vehicles
      [\<lparr>get_length = 8, get_gewicht = 20, get_geschw = 120\<rparr>,
       \<lparr>get_length = 4, get_gewicht = 15, get_geschw = 80\<rparr>]
      (clear \<lparr>length_sum = 7, tiles = 7, weight = 7, max_speed = 7\<rparr>))) = 35
   \<and> sint (max_speed (add_vehicles
      [\<lparr>get_length = 8, get_gewicht = 20, get_geschw = 120\<rparr>,
       \<lparr>get_length = 4, get_gewicht = 15, get_geschw = 80\<rparr>]
      (clear \<lparr>length_sum = 7, tiles = 7, weight = 7, max_speed = 7\<rparr>))) = 80"
  using add_vehicles_after_clear
    [of "[\<lparr>get_length = 8, get_gewicht = 20, get_geschw = 120\<rparr>,
          \<lparr>get_length = 4, get_gewicht = 15, get_geschw = 80\<rparr>]"
        "\<lparr>length_sum = 7, tiles = 7, weight = 7, max_speed = 7\<rparr>"]
  by (simp add: KMH_SPEED_UNLIMITED_def)


text \<open>
  The minimum over the added vehicles alone is not what \<open>max_speed\<close> holds: one vehicle
  of 400000 km/h gives 300000.
\<close>

theorem add_vehicles_fast_vehicle_counterexample:
  "sint (max_speed (add_vehicles [\<lparr>get_length = 8, get_gewicht = 20, get_geschw = 400000\<rparr>]
      (clear \<lparr>length_sum = 0, tiles = 0, weight = 0, max_speed = 0\<rparr>))) = 300000
   \<and> Min (sint ` get_geschw ` set [\<lparr>get_length = 8, get_gewicht = 20, get_geschw = 400000\<rparr>]) = 400000
   \<and> sint (max_speed (add_vehicles [\<lparr>get_length = 8, get_gewicht = 20, get_geschw = 400000\<rparr>]
      (clear \<lparr>length_sum = 0, tiles = 0, weight = 0, max_speed = 0\<rparr>)))
     \<noteq> Min (sint ` get_geschw ` set [\<lparr>get_length = 8, get_gewicht = 20, get_geschw = 400000\<rparr>])"
  by (simp add: add_vehicle_def clear_def min_sint32_def KMH_SPEED_UNLIMITED_def)

lemma nat_div_round_up_cases:
  fixes n d :: nat
  assumes "0 < d"
  shows "(n + d - 1) div d = (if n mod d = 0 then n div d else n div d + 1)"
proof -
  have split: "n + d - 1 = (n mod d + d - 1) + (n div d) * d"
    using assms by (simp add: algebra_simps)
  from split have "(n + d - 1) div d = ((n mod d + d - 1) + (n div d) * d) div d"
    by (rule arg_cong)
  also have "\<dots> = (n mod d + d - 1) div d + n div d"
    using assms div_mult_self1 [of d "n mod d + d - 1" "n div d"] by simp
  finally have "(n + d - 1) div d = (n mod d + d - 1) div d + n div d" .
  moreover have "(n mod d + d - 1) div d = (if n mod d = 0 then 0 else 1)"
  proof (cases "n mod d = 0")
    case True
    then show ?thesis using assms by simp
  next
    case False
    have lt: "n mod d < d" using assms by simp
    have "(n mod d + d - 1) div d = 1"
    proof (rule div_nat_eqI)
      show "d * 1 \<le> n mod d + d - 1" using False by simp
      have "n mod d + d - 1 < d + d" using lt assms by linarith
      then show "n mod d + d - 1 < d * Suc 1" by simp
    qed
    then show ?thesis using False by simp
  qed
  ultimately show ?thesis by simp
qed

lemma div_round_up:
  fixes n d :: nat
  assumes "0 < d"
  shows "(n + d - 1) div d = nat \<lceil>(of_nat n :: rat) / of_nat d\<rceil>"
proof -
  have "\<lceil>(of_nat n :: rat) / of_nat d\<rceil> = \<lceil>(of_int (int n) :: rat) / of_int (int d)\<rceil>"
    by simp
  also have "\<dots> = - (- int n div int d)"
    by (rule ceiling_divide_eq_div)
  also have "\<dots> = (if int n mod int d = 0 then int n div int d else int n div int d + 1)"
    using assms by (simp add: zdiv_zminus1_eq_if)
  also have "\<dots> = int (if n mod d = 0 then n div d else n div d + 1)"
    by (simp flip: of_nat_mod of_nat_div)
  finally show ?thesis using nat_div_round_up_cases [OF assms, of n] by simp
qed


lemma update_summary_tiles_exact:
  assumes "OOS \<noteq> 0"
    and "unat (length_sum s) + (max 8 (unat l) - unat l) + unat OOS - 1 < 2 ^ 32"
  shows "unat (tiles (update_summary OOS l s))
       = (unat (length_sum s) + (max 8 (unat l) - unat l) + unat OOS - 1) div unat OOS"
proof -
  define c where "c = max 8 (unat l) - unat l"
  let ?n = "unat (length_sum s) + c + unat OOS"
  have pos: "0 < unat OOS" using assms(1) by (simp add: unat_gt_0)
  then have one: "1 \<le> ?n" by simp
  have "(of_nat (?n - 1) :: uint32) = of_nat ?n - 1"
    using one by (simp add: of_nat_diff)
  also have "\<dots> = length_sum s + of_nat c + OOS - 1"
    by simp
  finally have w: "length_sum s + of_nat c + OOS - 1 = (of_nat (?n - 1) :: uint32)"
    by simp
  have "unat (of_nat (?n - 1) :: uint32) = ?n - 1"
    using assms(2) by (simp add: unat_of_nat c_def)
  with w have u: "unat (length_sum s + of_nat c + OOS - 1) = ?n - 1"
    by simp
  have "tiles (update_summary OOS l s) = (length_sum s + of_nat c + OOS - 1) div OOS"
    by (simp add: update_summary_def c_def)
  then have "unat (tiles (update_summary OOS l s)) = (?n - 1) div unat OOS"
    by (simp only: unat_div_distrib u)
  then show ?thesis by (simp only: c_def)
qed

text \<open>
  C9. \<open>update_summary\<close> multiplies the accumulated weight by 1000 (tonnes to
  kilograms), leaves \<open>length\<close> and \<open>max_speed\<close> alone, and sets \<open>tiles\<close> to the
  corrected length, \<open>length + (max(8, length_of_last_vehicle) - length_of_last_vehicle)\<close>,
  divided by \<open>OBJECT_OFFSET_STEPS\<close> and rounded up (for a positive
  \<open>OBJECT_OFFSET_STEPS\<close>, the sum fitting 32 bits). A second application multiplies
  the weight by 1000 again: for a weight that is not zero and fits the field after both
  multiplications, the result of the second application differs from that of the
  first, so \<open>update_summary\<close> is not idempotent.
\<close>

theorem update_summary_once:
  "weight (update_summary OOS l s) = weight s * 1000
   \<and> length_sum (update_summary OOS l s) = length_sum s
   \<and> max_speed (update_summary OOS l s) = max_speed s
   \<and> (OOS \<noteq> 0 \<and> unat (length_sum s) + (max 8 (unat l) - unat l) + unat OOS - 1 < 2 ^ 32 \<longrightarrow>
        unat (tiles (update_summary OOS l s))
          = nat \<lceil>(of_nat (unat (length_sum s) + (max 8 (unat l) - unat l)) :: rat)
                 / of_nat (unat OOS)\<rceil>)
   \<and> weight (update_summary OOS l (update_summary OOS l s)) = weight (update_summary OOS l s) * 1000
   \<and> (weight s \<noteq> 0 \<and> - (2 ^ 31) \<le> sint (weight s) * 1000000 \<and> sint (weight s) * 1000000 < 2 ^ 31 \<longrightarrow>
        sint (weight (update_summary OOS l s)) = sint (weight s) * 1000
        \<and> sint (weight (update_summary OOS l (update_summary OOS l s))) = sint (weight s) * 1000 * 1000
        \<and> update_summary OOS l (update_summary OOS l s) \<noteq> update_summary OOS l s)"
proof -
  have w1: "weight (update_summary OOS l s) = weight s * 1000" for s
    by (simp add: update_summary_def)
  have keep: "length_sum (update_summary OOS l s) = length_sum s"
    "max_speed (update_summary OOS l s) = max_speed s"
    by (simp_all add: update_summary_def)
  have tiles_up: "unat (tiles (update_summary OOS l s))
      = nat \<lceil>(of_nat (unat (length_sum s) + (max 8 (unat l) - unat l)) :: rat)
             / of_nat (unat OOS)\<rceil>"
    if "OOS \<noteq> 0" "unat (length_sum s) + (max 8 (unat l) - unat l) + unat OOS - 1 < 2 ^ 32"
  proof -
    have pos: "0 < unat OOS" using that(1) by (simp add: unat_gt_0)
    show ?thesis
      using update_summary_tiles_exact [OF that]
        div_round_up [OF pos, of "unat (length_sum s) + (max 8 (unat l) - unat l)"]
      by (simp only:)
  qed
  have twice: "sint (weight (update_summary OOS l s)) = sint (weight s) * 1000
      \<and> sint (weight (update_summary OOS l (update_summary OOS l s))) = sint (weight s) * 1000 * 1000
      \<and> update_summary OOS l (update_summary OOS l s) \<noteq> update_summary OOS l s"
    if nz: "weight s \<noteq> 0"
      and lo: "- (2 ^ 31) \<le> sint (weight s) * 1000000"
      and hi: "sint (weight s) * 1000000 < 2 ^ 31"
  proof -
    let ?w = "sint (weight s)"
    have nz': "?w \<noteq> 0" using nz by (simp add: signed_eq_0_iff)
    have r1: "- (2 ^ 31) \<le> ?w * 1000" "?w * 1000 < 2 ^ 31"
      using lo hi by linarith+
    have a: "sint (weight s * 1000) = ?w * 1000"
      using r1 by (simp add: sint_word_ariths signed_take_bit_int_eq_self)
    have b: "sint (weight s * 1000 * 1000) = ?w * 1000 * 1000"
      using lo hi a by (simp add: sint_word_ariths signed_take_bit_int_eq_self)
    have "?w * 1000 * 1000 \<noteq> ?w * 1000" using nz' by simp
    then have "weight s * 1000 * 1000 \<noteq> weight s * 1000"
      using a b by metis
    then have "update_summary OOS l (update_summary OOS l s) \<noteq> update_summary OOS l s"
      by (metis w1)
    then show ?thesis using a b by (simp add: w1)
  qed
  show ?thesis
    using w1 keep tiles_up twice by blast
qed


theorem update_summary_once_witness:
  "unat (tiles (update_summary 16 4 \<lparr>length_sum = 16, tiles = 0, weight = 35, max_speed = 80\<rparr>)) = 2
   \<and> unat (tiles (update_summary 16 12 \<lparr>length_sum = 16, tiles = 0, weight = 35, max_speed = 80\<rparr>)) = 1
   \<and> sint (weight (update_summary 16 4 \<lparr>length_sum = 16, tiles = 0, weight = 35, max_speed = 80\<rparr>)) = 35000
   \<and> sint (weight (update_summary 16 4
         (update_summary 16 4 \<lparr>length_sum = 16, tiles = 0, weight = 35, max_speed = 80\<rparr>))) = 35000000
   \<and> update_summary 16 4 (update_summary 16 4 \<lparr>length_sum = 16, tiles = 0, weight = 35, max_speed = 80\<rparr>)
       \<noteq> update_summary 16 4 \<lparr>length_sum = 16, tiles = 0, weight = 35, max_speed = 80\<rparr>"
proof -
  have c: "\<lceil>(5 / 4 :: rat)\<rceil> = 2"
    by (simp add: ceiling_unique)
  show ?thesis
    using update_summary_once [of 16 4 "\<lparr>length_sum = 16, tiles = 0, weight = 35, max_speed = 80\<rparr>"]
      update_summary_once [of 16 12 "\<lparr>length_sum = 16, tiles = 0, weight = 35, max_speed = 80\<rparr>"]
    by (simp add: c)
qed

section \<open>Properties of the validity flags\<close>

lemma bit_flag:
  assumes "m < 32"
  shows "bit (2 ^ m :: 32 word) n = (n = m)"
  using assms by (auto simp add: bit_exp_iff)

lemma cd_bits:
  "bit cd_vehicle_summary n = (n = 0)"
  "bit cd_adverse_summary n = (n = 1)"
  "bit cd_freight_summary n = (n = 2)"
  "bit cd_weight_summary n = (n = 3)"
  "bit cd_starting_force n = (n = 4)"
  "bit cd_continuous_power n = (n = 5)"
proof -
  have "bit cd_vehicle_summary n = bit (2 ^ 0 :: 32 word) n"
    by (simp add: cd_vehicle_summary_def)
  then show "bit cd_vehicle_summary n = (n = 0)" by (simp only: bit_flag)
  have "bit cd_adverse_summary n = bit (2 ^ 1 :: 32 word) n"
    by (simp add: cd_adverse_summary_def)
  then show "bit cd_adverse_summary n = (n = 1)" by (simp only: bit_flag)
  have "bit cd_freight_summary n = bit (2 ^ 2 :: 32 word) n"
    by (simp add: cd_freight_summary_def)
  then show "bit cd_freight_summary n = (n = 2)" by (simp only: bit_flag)
  have "bit cd_weight_summary n = bit (2 ^ 3 :: 32 word) n"
    by (simp add: cd_weight_summary_def)
  then show "bit cd_weight_summary n = (n = 3)" by (simp only: bit_flag)
  have "bit cd_starting_force n = bit (2 ^ 4 :: 32 word) n"
    by (simp add: cd_starting_force_def)
  then show "bit cd_starting_force n = (n = 4)" by (simp only: bit_flag)
  have "bit cd_continuous_power n = bit (2 ^ 5 :: 32 word) n"
    by (simp add: cd_continuous_power_def)
  then show "bit cd_continuous_power n = (n = 5)" by (simp only: bit_flag)
qed

lemma valid_iff_bit:
  "valid cd_vehicle_summary s = bit (is_valid s) 0"
  "valid cd_adverse_summary s = bit (is_valid s) 1"
  "valid cd_freight_summary s = bit (is_valid s) 2"
  "valid cd_weight_summary s = bit (is_valid s) 3"
  "valid cd_starting_force s = bit (is_valid s) 4"
  "valid cd_continuous_power s = bit (is_valid s) 5"
  by (auto simp add: valid_def bit_eq_iff [of _ "0 :: 32 word"] bit_and_iff cd_bits)


text \<open>
  C1. \<open>invalidate_vehicle_summary\<close> clears exactly the validity bits of
  \<open>cd_vehicle_summary\<close>, \<open>cd_adverse_summary\<close>, \<open>cd_weight_summary\<close>,
  \<open>cd_starting_force\<close> and \<open>cd_continuous_power\<close>: every other bit of \<open>is_valid\<close>,
  the one of \<open>cd_freight_summary\<close> among them, keeps its value, and so does every
  other member. \<open>invalidate_adverse_summary\<close> clears exactly the bits of
  \<open>cd_adverse_summary\<close> and \<open>cd_weight_summary\<close>.
\<close>

theorem invalidate_clears_exactly:
  "bit (is_valid (invalidate_vehicle_summary s)) n
     = (bit (is_valid s) n \<and> \<not> bit cd_vehicle_summary n \<and> \<not> bit cd_adverse_summary n
        \<and> \<not> bit cd_weight_summary n \<and> \<not> bit cd_starting_force n \<and> \<not> bit cd_continuous_power n)
   \<and> \<not> valid cd_vehicle_summary (invalidate_vehicle_summary s)
   \<and> \<not> valid cd_adverse_summary (invalidate_vehicle_summary s)
   \<and> \<not> valid cd_weight_summary (invalidate_vehicle_summary s)
   \<and> \<not> valid cd_starting_force (invalidate_vehicle_summary s)
   \<and> \<not> valid cd_continuous_power (invalidate_vehicle_summary s)
   \<and> valid cd_freight_summary (invalidate_vehicle_summary s) = valid cd_freight_summary s
   \<and> invalidate_vehicle_summary s = s\<lparr>is_valid := is_valid (invalidate_vehicle_summary s)\<rparr>
   \<and> bit (is_valid (invalidate_adverse_summary s)) n
     = (bit (is_valid s) n \<and> \<not> bit cd_adverse_summary n \<and> \<not> bit cd_weight_summary n)
   \<and> \<not> valid cd_adverse_summary (invalidate_adverse_summary s)
   \<and> \<not> valid cd_weight_summary (invalidate_adverse_summary s)
   \<and> valid cd_vehicle_summary (invalidate_adverse_summary s) = valid cd_vehicle_summary s
   \<and> valid cd_freight_summary (invalidate_adverse_summary s) = valid cd_freight_summary s
   \<and> valid cd_starting_force (invalidate_adverse_summary s) = valid cd_starting_force s
   \<and> valid cd_continuous_power (invalidate_adverse_summary s) = valid cd_continuous_power s
   \<and> invalidate_adverse_summary s = s\<lparr>is_valid := is_valid (invalidate_adverse_summary s)\<rparr>"
proof -
  have v: "bit (is_valid (invalidate_vehicle_summary s)) k
     = (bit (is_valid s) k \<and> \<not> bit cd_vehicle_summary k \<and> \<not> bit cd_adverse_summary k
        \<and> \<not> bit cd_weight_summary k \<and> \<not> bit cd_starting_force k \<and> \<not> bit cd_continuous_power k)"
    for k
    by (auto simp add: invalidate_vehicle_summary_def bit_and_iff bit_not_iff bit_or_iff
        dest: bit_imp_possible_bit)
  have a: "bit (is_valid (invalidate_adverse_summary s)) k
     = (bit (is_valid s) k \<and> \<not> bit cd_adverse_summary k \<and> \<not> bit cd_weight_summary k)"
    for k
    by (auto simp add: invalidate_adverse_summary_def bit_and_iff bit_not_iff bit_or_iff
        dest: bit_imp_possible_bit)
  have rest_v: "invalidate_vehicle_summary s = s\<lparr>is_valid := is_valid (invalidate_vehicle_summary s)\<rparr>"
    by (simp add: invalidate_vehicle_summary_def)
  have rest_a: "invalidate_adverse_summary s = s\<lparr>is_valid := is_valid (invalidate_adverse_summary s)\<rparr>"
    by (simp add: invalidate_adverse_summary_def)
  show ?thesis
    unfolding valid_iff_bit
    using rest_v rest_a by (simp add: v a cd_bits)
qed


lemma or_flag_valid: "cd \<noteq> 0 \<Longrightarrow> (w OR cd) AND cd \<noteq> (0 :: 32 word)"
  by (simp add: bit.conj_disj_distrib2)

lemma cd_nonzero:
  "cd_vehicle_summary \<noteq> 0" "cd_adverse_summary \<noteq> 0" "cd_freight_summary \<noteq> 0"
  "cd_weight_summary \<noteq> 0"
  by (simp_all add: cd_vehicle_summary_def cd_adverse_summary_def cd_freight_summary_def
      cd_weight_summary_def)

lemma validate_vehicle_summary_valid:
  "valid cd_vehicle_summary (validate_vehicle_summary h s)"
  using or_flag_valid [OF cd_nonzero(1)]
  by (simp add: validate_vehicle_summary_def valid_def Let_def split: prod.split)

lemma validate_adverse_summary_valid:
  "valid cd_adverse_summary (validate_adverse_summary h s)"
  using or_flag_valid [OF cd_nonzero(2)]
  by (simp add: validate_adverse_summary_def valid_def Let_def split: prod.split)

lemma validate_freight_summary_valid:
  "valid cd_freight_summary (validate_freight_summary h s)"
  using or_flag_valid [OF cd_nonzero(3)]
  by (simp add: validate_freight_summary_def valid_def Let_def split: prod.split)

lemma validate_weight_summary_valid:
  "valid cd_weight_summary (validate_weight_summary h s)"
  using or_flag_valid [OF cd_nonzero(4)]
  by (simp add: validate_weight_summary_def valid_def Let_def)

lemma validate_vehicle_summary_idle:
  "valid cd_vehicle_summary s \<Longrightarrow> validate_vehicle_summary h s = s"
  by (simp add: validate_vehicle_summary_def valid_def)

lemma validate_adverse_summary_idle:
  "valid cd_adverse_summary s \<Longrightarrow> validate_adverse_summary h s = s"
  by (simp add: validate_adverse_summary_def valid_def)

lemma validate_freight_summary_idle:
  "valid cd_freight_summary s \<Longrightarrow> validate_freight_summary h s = s"
  by (simp add: validate_freight_summary_def valid_def)

lemma validate_weight_summary_idle:
  "valid cd_weight_summary s \<Longrightarrow> validate_weight_summary h s = s"
  by (simp add: validate_weight_summary_def valid_def)

lemma validate_vehicle_summary_calls:
  assumes "counts_calls c h"
  shows "c (derived (validate_vehicle_summary h s))
       = (if valid cd_vehicle_summary s then c (derived s) else Suc (c (derived s)))"
proof (cases "valid cd_vehicle_summary s")
  case True
  then show ?thesis by (simp add: validate_vehicle_summary_idle)
next
  case False
  let ?s1 = "s\<lparr>is_valid := is_valid s OR cd_vehicle_summary\<rparr>"
  obtain v e where h: "h ?s1 = (v, e)" by (cases "h ?s1")
  have "c (snd (h ?s1)) = Suc (c (derived ?s1))"
    using assms by (simp add: counts_calls_def)
  then have "c e = Suc (c (derived s))" by (simp add: h)
  moreover have "derived (validate_vehicle_summary h s) = e"
    using False by (simp add: validate_vehicle_summary_def valid_def h)
  ultimately show ?thesis using False by simp
qed

lemma validate_adverse_summary_calls:
  assumes "counts_calls c h"
  shows "c (derived (validate_adverse_summary h s))
       = (if valid cd_adverse_summary s then c (derived s) else Suc (c (derived s)))"
proof (cases "valid cd_adverse_summary s")
  case True
  then show ?thesis by (simp add: validate_adverse_summary_idle)
next
  case False
  let ?s1 = "s\<lparr>is_valid := is_valid s OR cd_adverse_summary\<rparr>"
  obtain v e where h: "h ?s1 = (v, e)" by (cases "h ?s1")
  have "c (snd (h ?s1)) = Suc (c (derived ?s1))"
    using assms by (simp add: counts_calls_def)
  then have "c e = Suc (c (derived s))" by (simp add: h)
  moreover have "derived (validate_adverse_summary h s) = e"
    using False by (simp add: validate_adverse_summary_def valid_def h)
  ultimately show ?thesis using False by simp
qed

lemma validate_freight_summary_calls:
  assumes "counts_calls c h"
  shows "c (derived (validate_freight_summary h s))
       = (if valid cd_freight_summary s then c (derived s) else Suc (c (derived s)))"
proof (cases "valid cd_freight_summary s")
  case True
  then show ?thesis by (simp add: validate_freight_summary_idle)
next
  case False
  let ?s1 = "s\<lparr>is_valid := is_valid s OR cd_freight_summary\<rparr>"
  obtain v e where h: "h ?s1 = (v, e)" by (cases "h ?s1")
  have "c (snd (h ?s1)) = Suc (c (derived ?s1))"
    using assms by (simp add: counts_calls_def)
  then have "c e = Suc (c (derived s))" by (simp add: h)
  moreover have "derived (validate_freight_summary h s) = e"
    using False by (simp add: validate_freight_summary_def valid_def h)
  ultimately show ?thesis using False by simp
qed

lemma validate_weight_summary_calls:
  assumes "counts_weight_calls c h"
  shows "c (derived (validate_weight_summary h s))
       = (if valid cd_weight_summary s then c (derived s) else Suc (c (derived s)))"
proof (cases "valid cd_weight_summary s")
  case True
  then show ?thesis by (simp add: validate_weight_summary_idle)
next
  case False
  let ?s1 = "s\<lparr>is_valid := is_valid s OR cd_weight_summary\<rparr>"
  have "c (h ?s1) = Suc (c (derived ?s1))"
    using assms by (simp add: counts_weight_calls_def)
  moreover have "derived (validate_weight_summary h s) = h ?s1"
    using False by (simp add: validate_weight_summary_def valid_def Let_def)
  ultimately show ?thesis using False by simp
qed


text \<open>
  C7. After a validity check (\<open>validate_vehicle_summary\<close>,
  \<open>validate_adverse_summary\<close>, \<open>validate_freight_summary\<close> or
  \<open>existing_convoy_t::validate_weight_summary\<close>) the validity bit is set, and a second
  check that follows with no invalidation between them returns the state unchanged,
  whatever the update method is: the update method is not called. With a counter of the
  calls of the update method, two consecutive checks count one call when the bit was
  clear and none when it was set.
\<close>

theorem validate_twice_updates_once:
  "validate_vehicle_summary hv' (validate_vehicle_summary hv s) = validate_vehicle_summary hv s
   \<and> validate_adverse_summary ha' (validate_adverse_summary ha s) = validate_adverse_summary ha s
   \<and> validate_freight_summary hf' (validate_freight_summary hf s) = validate_freight_summary hf s
   \<and> validate_weight_summary hw' (validate_weight_summary hw x) = validate_weight_summary hw x
   \<and> valid cd_vehicle_summary (validate_vehicle_summary hv s)
   \<and> valid cd_adverse_summary (validate_adverse_summary ha s)
   \<and> valid cd_freight_summary (validate_freight_summary hf s)
   \<and> valid cd_weight_summary (validate_weight_summary hw x)
   \<and> (counts_calls c hv \<longrightarrow>
        c (derived (validate_vehicle_summary hv (validate_vehicle_summary hv s)))
          = (if valid cd_vehicle_summary s then c (derived s) else Suc (c (derived s))))
   \<and> (counts_calls c ha \<longrightarrow>
        c (derived (validate_adverse_summary ha (validate_adverse_summary ha s)))
          = (if valid cd_adverse_summary s then c (derived s) else Suc (c (derived s))))
   \<and> (counts_calls c hf \<longrightarrow>
        c (derived (validate_freight_summary hf (validate_freight_summary hf s)))
          = (if valid cd_freight_summary s then c (derived s) else Suc (c (derived s))))
   \<and> (counts_weight_calls cw hw \<longrightarrow>
        cw (derived (validate_weight_summary hw (validate_weight_summary hw x)))
          = (if valid cd_weight_summary x then cw (derived x) else Suc (cw (derived x))))"
proof -
  have v2: "validate_vehicle_summary h' (validate_vehicle_summary hv s) = validate_vehicle_summary hv s" for h'
    by (rule validate_vehicle_summary_idle) (rule validate_vehicle_summary_valid)
  have a2: "validate_adverse_summary h' (validate_adverse_summary ha s) = validate_adverse_summary ha s" for h'
    by (rule validate_adverse_summary_idle) (rule validate_adverse_summary_valid)
  have f2: "validate_freight_summary h' (validate_freight_summary hf s) = validate_freight_summary hf s" for h'
    by (rule validate_freight_summary_idle) (rule validate_freight_summary_valid)
  have w2: "validate_weight_summary h' (validate_weight_summary hw x) = validate_weight_summary hw x" for h'
    by (rule validate_weight_summary_idle) (rule validate_weight_summary_valid)
  show ?thesis
    unfolding v2 a2 f2 w2
    using validate_vehicle_summary_valid [of hv s] validate_adverse_summary_valid [of ha s]
      validate_freight_summary_valid [of hf s] validate_weight_summary_valid [of hw x]
      validate_vehicle_summary_calls [of c hv s] validate_adverse_summary_calls [of c ha s]
      validate_freight_summary_calls [of c hf s] validate_weight_summary_calls [of cw hw x]
    by blast
qed

theorem validate_twice_updates_once_witness:
  "derived (validate_vehicle_summary counting_update_vehicle
      (validate_vehicle_summary counting_update_vehicle (new_lazy_convoy 0))) = 1
   \<and> derived (validate_adverse_summary counting_update_adverse
      (validate_adverse_summary counting_update_adverse (new_lazy_convoy 0))) = 1
   \<and> derived (validate_freight_summary counting_update_freight
      (validate_freight_summary counting_update_freight (new_lazy_convoy 0))) = 1
   \<and> convoy (derived (validate_weight_summary counting_update_weight
      (validate_weight_summary counting_update_weight (new_lazy_convoy new_existing_members)))) = 1"
proof -
  have c: "counts_calls (\<lambda>n. n) counting_update_vehicle"
    "counts_calls (\<lambda>n. n) counting_update_adverse"
    "counts_calls (\<lambda>n. n) counting_update_freight"
    "counts_weight_calls convoy counting_update_weight"
    by (simp_all add: counts_calls_def counts_weight_calls_def counting_update_vehicle_def
        counting_update_adverse_def counting_update_freight_def counting_update_weight_def)
  have n: "\<not> valid cd (new_lazy_convoy e)" for cd and e :: 'a
    by (simp add: valid_def new_lazy_convoy_def)
  have d: "derived (new_lazy_convoy e) = e" for e :: 'a
    by (simp add: new_lazy_convoy_def)
  note T = validate_twice_updates_once
      [where hv = counting_update_vehicle and ha = counting_update_adverse
        and hf = counting_update_freight and hw = counting_update_weight
        and hv' = counting_update_vehicle and ha' = counting_update_adverse
        and hf' = counting_update_freight and hw' = counting_update_weight
        and c = "\<lambda>n. n" and cw = convoy and s = "new_lazy_convoy 0"
        and x = "new_lazy_convoy new_existing_members"]
  from T c(1) have v0: "derived (validate_vehicle_summary counting_update_vehicle
      (validate_vehicle_summary counting_update_vehicle (new_lazy_convoy 0)))
      = (if valid cd_vehicle_summary (new_lazy_convoy (0 :: nat)) then derived (new_lazy_convoy (0 :: nat))
         else Suc (derived (new_lazy_convoy (0 :: nat))))"
    by blast
  from T c(2) have a0: "derived (validate_adverse_summary counting_update_adverse
      (validate_adverse_summary counting_update_adverse (new_lazy_convoy 0)))
      = (if valid cd_adverse_summary (new_lazy_convoy (0 :: nat)) then derived (new_lazy_convoy (0 :: nat))
         else Suc (derived (new_lazy_convoy (0 :: nat))))"
    by blast
  from T c(3) have f0: "derived (validate_freight_summary counting_update_freight
      (validate_freight_summary counting_update_freight (new_lazy_convoy 0)))
      = (if valid cd_freight_summary (new_lazy_convoy (0 :: nat)) then derived (new_lazy_convoy (0 :: nat))
         else Suc (derived (new_lazy_convoy (0 :: nat))))"
    by blast
  from T c(4) have w0: "convoy (derived (validate_weight_summary counting_update_weight
      (validate_weight_summary counting_update_weight (new_lazy_convoy new_existing_members))))
      = (if valid cd_weight_summary (new_lazy_convoy new_existing_members)
         then convoy (derived (new_lazy_convoy new_existing_members))
         else Suc (convoy (derived (new_lazy_convoy new_existing_members))))"
    by blast
  have v: "derived (validate_vehicle_summary counting_update_vehicle
      (validate_vehicle_summary counting_update_vehicle (new_lazy_convoy 0))) = 1"
    by (simp add: v0 n d)
  have a: "derived (validate_adverse_summary counting_update_adverse
      (validate_adverse_summary counting_update_adverse (new_lazy_convoy 0))) = 1"
    by (simp add: a0 n d)
  have f: "derived (validate_freight_summary counting_update_freight
      (validate_freight_summary counting_update_freight (new_lazy_convoy 0))) = 1"
    by (simp add: f0 n d)
  have w: "convoy (derived (validate_weight_summary counting_update_weight
      (validate_weight_summary counting_update_weight (new_lazy_convoy new_existing_members)))) = 1"
    by (simp add: w0 n d) (simp add: new_existing_members_def)
  show ?thesis using v a f w by simp
qed















section \<open>Properties of the way-type table\<close>

lemma float32e8_values:
  "CF_TRACK = 13" "CF_MAGLEV = 10" "CF_ROAD = 63 / 25" "CF_WATER = 25" "CF_AIR = 1"
  "FR_MAGLEV = 3 / 2000" "FR_TRACK = 51 / 10000" "FR_ROAD = 3 / 200" "FR_WATER = 1 / 1000"
  "FR_AIR = 1 / 1000"
  "float32e8 2 1 = 2" "float32e8 1 10 = 1 / 10" "float32e8 1 2 = 1 / 2" "float32e8 1 1 = 1"
  "float32e8 12 10 = 6 / 5"
  by (simp_all add: CF_TRACK_def CF_MAGLEV_def CF_ROAD_def CF_WATER_def CF_AIR_def
      FR_MAGLEV_def FR_TRACK_def FR_ROAD_def FR_WATER_def FR_AIR_def float32e8_def)

text \<open>
  C6, as amended. \<open>set_by_waytype\<close> sets \<open>cf\<close>, \<open>fr\<close> and \<open>br\<close> from the way type
  alone (the previous coefficients do not matter, \<open>max_speed\<close> is not touched). The
  classes rail (\<open>track_wt\<close>, also \<open>narrowgauge_wt\<close> and \<open>overheadlines_wt\<close>), tram
  (\<open>tram_wt\<close>, also \<open>monorail_wt\<close>), road (the default branch), water, air and maglev
  get the constants of the table below. The single coefficients are not distinct
  between the classes: rail and tram have the same \<open>cf\<close> and \<open>fr\<close> (\<open>CF_TRACK\<close>,
  \<open>FR_TRACK\<close>) and differ in \<open>br\<close> alone, water and air have the same \<open>fr\<close>, tram
  and road the same \<open>br\<close>. The six triples \<open>(cf, fr, br)\<close> are pairwise distinct, and
  so are the values of \<open>cf\<close> of the five classes other than tram.
\<close>

theorem set_by_waytype_table:
  "coefficients (set_by_waytype track_wt a) = (13, 51 / 10000, 1 / 2)
   \<and> coefficients (set_by_waytype tram_wt a) = (13, 51 / 10000, 1)
   \<and> coefficients (set_by_waytype road_wt a) = (252 / 100, 15 / 1000, 1)
   \<and> coefficients (set_by_waytype water_wt a) = (25, 1 / 1000, 1 / 10)
   \<and> coefficients (set_by_waytype air_wt a) = (1, 1 / 1000, 2)
   \<and> coefficients (set_by_waytype maglev_wt a) = (10, 15 / 10000, 12 / 10)
   \<and> distinct (map (\<lambda>w. coefficients (set_by_waytype w a))
        [track_wt, tram_wt, road_wt, water_wt, air_wt, maglev_wt])
   \<and> distinct (map (\<lambda>w. cf (set_by_waytype w a)) [track_wt, road_wt, water_wt, air_wt, maglev_wt])
   \<and> cf (set_by_waytype tram_wt a) = cf (set_by_waytype track_wt a)
   \<and> fr (set_by_waytype tram_wt a) = fr (set_by_waytype track_wt a)
   \<and> br (set_by_waytype tram_wt a) \<noteq> br (set_by_waytype track_wt a)
   \<and> fr (set_by_waytype water_wt a) = fr (set_by_waytype air_wt a)
   \<and> br (set_by_waytype tram_wt a) = br (set_by_waytype road_wt a)
   \<and> set_by_waytype narrowgauge_wt a = set_by_waytype track_wt a
   \<and> set_by_waytype overheadlines_wt a = set_by_waytype track_wt a
   \<and> set_by_waytype monorail_wt a = set_by_waytype tram_wt a
   \<and> set_by_waytype invalid_wt a = set_by_waytype road_wt a
   \<and> adverse_max_speed (set_by_waytype w a) = adverse_max_speed a
   \<and> coefficients (set_by_waytype w a) = coefficients (set_by_waytype w a')"
proof -
  have tab: "coefficients (set_by_waytype track_wt a) = (13, 51 / 10000, 1 / 2)"
    "coefficients (set_by_waytype tram_wt a) = (13, 51 / 10000, 1)"
    "coefficients (set_by_waytype road_wt a) = (252 / 100, 15 / 1000, 1)"
    "coefficients (set_by_waytype water_wt a) = (25, 1 / 1000, 1 / 10)"
    "coefficients (set_by_waytype air_wt a) = (1, 1 / 1000, 2)"
    "coefficients (set_by_waytype maglev_wt a) = (10, 15 / 10000, 12 / 10)"
    by (simp_all add: coefficients_def float32e8_values)
  have dist: "distinct (map (\<lambda>w. coefficients (set_by_waytype w a))
        [track_wt, tram_wt, road_wt, water_wt, air_wt, maglev_wt])"
    by (simp add: coefficients_def float32e8_values)
  have dist_cf: "distinct (map (\<lambda>w. cf (set_by_waytype w a))
        [track_wt, road_wt, water_wt, air_wt, maglev_wt])"
    by (simp add: float32e8_values)
  have shared: "cf (set_by_waytype tram_wt a) = cf (set_by_waytype track_wt a)"
    "fr (set_by_waytype tram_wt a) = fr (set_by_waytype track_wt a)"
    "br (set_by_waytype tram_wt a) \<noteq> br (set_by_waytype track_wt a)"
    "fr (set_by_waytype water_wt a) = fr (set_by_waytype air_wt a)"
    "br (set_by_waytype tram_wt a) = br (set_by_waytype road_wt a)"
    by (simp_all add: float32e8_values)
  have same: "set_by_waytype narrowgauge_wt a = set_by_waytype track_wt a"
    "set_by_waytype overheadlines_wt a = set_by_waytype track_wt a"
    "set_by_waytype monorail_wt a = set_by_waytype tram_wt a"
    "set_by_waytype invalid_wt a = set_by_waytype road_wt a"
    by simp_all
  have keep: "adverse_max_speed (set_by_waytype w a) = adverse_max_speed a"
    by (cases w) simp_all
  have indep: "coefficients (set_by_waytype w a) = coefficients (set_by_waytype w a')"
    by (cases w) (simp_all add: coefficients_def)
  show ?thesis
    using tab dist dist_cf shared same keep indep by blast
qed

text \<open>
  The claim as it stands, with distinct constants for each of the six classes, fails
  between rail and tram: both get \<open>CF_TRACK\<close> and \<open>FR_TRACK\<close>.
\<close>

theorem set_by_waytype_rail_tram_counterexample:
  "cf (set_by_waytype track_wt \<lparr>cf = 0, fr = 0, br = 0, adverse_max_speed = 0\<rparr>)
     = cf (set_by_waytype tram_wt \<lparr>cf = 0, fr = 0, br = 0, adverse_max_speed = 0\<rparr>)
   \<and> fr (set_by_waytype track_wt \<lparr>cf = 0, fr = 0, br = 0, adverse_max_speed = 0\<rparr>)
     = fr (set_by_waytype tram_wt \<lparr>cf = 0, fr = 0, br = 0, adverse_max_speed = 0\<rparr>)
   \<and> \<not> distinct (map (\<lambda>w. cf (set_by_waytype w \<lparr>cf = 0, fr = 0, br = 0, adverse_max_speed = 0\<rparr>))
        [track_wt, tram_wt, road_wt, water_wt, air_wt, maglev_wt])"
  by simp

section \<open>Properties of the conversions\<close>

subsection \<open>The rounding of a mantissa of \<open>p\<close> bits\<close>

lemma mantissa_scaled_ge:
  assumes "0 < a" "0 < p"
  shows "2 ^ (p - 1) \<le> a * 2 powi mantissa_shift p a"
proof (cases "1 \<le> a")
  case True
  define n where "n = nat \<lfloor>a\<rfloor>"
  define L where "L = floorlog 2 n"
  have n1: "0 < n" using True by (simp add: n_def)
  have na: "of_nat n \<le> a" using True by (simp add: n_def)
  have b: "2 ^ (L - 1) \<le> n" using floorlog_bounds [of n 2] n1 by (simp add: L_def)
  have L1: "1 \<le> L" using n1 by (simp add: L_def floorlog_def)
  have e: "mantissa_shift p a = int p - int L"
    using True by (simp add: mantissa_shift_def n_def L_def)
  have "(2 :: rat) ^ (L - 1) \<le> of_nat n"
    using b by (metis of_nat_le_iff of_nat_numeral of_nat_power)
  then have "(2 :: rat) ^ (L - 1) \<le> a" using na by (rule order_trans)
  then have le: "(2 :: rat) ^ (L - 1) * 2 powi (int p - int L) \<le> a * 2 powi (int p - int L)"
    by (rule mult_right_mono) simp
  have eq: "(2 :: rat) ^ (L - 1) * 2 powi (int p - int L) = 2 ^ (p - 1)"
  proof -
    have "(2 :: rat) ^ (L - 1) = 2 powi (int L - 1)"
      using L1 by (simp add: power_int_def nat_diff_distrib')
    moreover have "(2 :: rat) ^ (p - 1) = 2 powi (int p - 1)"
      using assms(2) by (simp add: power_int_def nat_diff_distrib')
    moreover have "(2 :: rat) powi (int L - 1) * 2 powi (int p - int L) = 2 powi (int p - 1)"
      by (simp flip: power_int_add)
    ultimately show ?thesis by simp
  qed
  have "(2 :: rat) ^ (p - 1) = 2 ^ (L - 1) * 2 powi (int p - int L)"
    by (rule eq [symmetric])
  also have "\<dots> \<le> a * 2 powi (int p - int L)" by (rule le)
  finally show ?thesis unfolding e .
next
  case False
  define m where "m = nat \<lfloor>1 / a\<rfloor>"
  define K where "K = floorlog 2 m"
  have inv: "1 < 1 / a" using False assms(1) by simp
  have m1: "0 < m" using inv by (simp add: m_def)
  have b: "m < 2 ^ K" using floorlog_bounds [of m 2] m1 by (simp add: K_def)
  have e: "mantissa_shift p a = int p - 1 + int K"
    using False by (simp add: mantissa_shift_def m_def K_def)
  have "1 / a < of_int (\<lfloor>1 / a\<rfloor> + 1)" by linarith
  also have "\<dots> = of_nat (m + 1)"
  proof -
    have "0 \<le> \<lfloor>1 / a\<rfloor>" using assms(1) by simp
    then have "rat_of_int \<lfloor>1 / a\<rfloor> = of_nat (nat \<lfloor>1 / a\<rfloor>)"
      by (metis of_int_of_nat_eq int_nat_eq)
    then show ?thesis by (simp add: m_def)
  qed
  also have "\<dots> \<le> of_nat (2 ^ K)" using b by (simp only: of_nat_le_iff)
  finally have "1 / a < 2 ^ K" by simp
  then have aK: "1 \<le> a * 2 ^ K" using assms(1) by (simp add: field_simps)
  have "(2 :: rat) powi (int p - 1 + int K) = 2 ^ (p - 1) * 2 ^ K"
  proof -
    have "int p - 1 + int K = int (p - 1 + K)" using assms(2) by simp
    then have "(2 :: rat) powi (int p - 1 + int K) = 2 ^ (p - 1 + K)"
      by (simp only: power_int_of_nat)
    then show ?thesis by (simp only: power_add)
  qed
  then have "a * 2 powi (int p - 1 + int K) = 2 ^ (p - 1) * (a * 2 ^ K)" by simp
  moreover have "(2 :: rat) ^ (p - 1) * 1 \<le> 2 ^ (p - 1) * (a * 2 ^ K)"
    using aK by (intro mult_left_mono) simp_all
  ultimately have "(2 :: rat) ^ (p - 1) * 1 \<le> a * 2 powi (int p - 1 + int K)"
    by (simp only:)
  then show ?thesis unfolding e by simp
qed

lemma truncate_mantissa_rounds_within:
  assumes "0 < p"
  shows "rounds_within (1 / 2 ^ (p - 1)) (truncate_mantissa p)"
  unfolding rounds_within_def
proof
  fix x :: rat
  show "\<bar>truncate_mantissa p x - x\<bar> \<le> 1 / 2 ^ (p - 1) * \<bar>x\<bar>"
  proof (cases "x = 0")
    case True
    then show ?thesis by (simp add: truncate_mantissa_def)
  next
    case False
    define a where "a = \<bar>x\<bar>"
    define S where "S = (2 :: rat) powi mantissa_shift p a"
    have a0: "0 < a" using False by (simp add: a_def)
    have S0: "0 < S" by (simp add: S_def)
    have ge: "2 ^ (p - 1) \<le> a * S"
      unfolding S_def by (rule mantissa_scaled_ge [OF a0 assms])
    have x: "x = sgn x * a" by (simp add: a_def sgn_mult_abs)
    have "truncate_mantissa p x - x = sgn x * (of_int \<lfloor>a * S\<rfloor> / S - a)"
      by (subst (2) x) (simp add: truncate_mantissa_def a_def S_def algebra_simps)
    then have "\<bar>truncate_mantissa p x - x\<bar> = \<bar>of_int \<lfloor>a * S\<rfloor> / S - a\<bar>"
      using False by (simp add: abs_mult abs_sgn_eq)
    also have "\<dots> = \<bar>of_int \<lfloor>a * S\<rfloor> - a * S\<bar> / S"
      using S0 by (simp add: field_simps abs_mult flip: abs_divide)
    also have "\<dots> \<le> 1 / S"
    proof -
      have "\<bar>of_int \<lfloor>a * S\<rfloor> - a * S\<bar> \<le> 1" by linarith
      then show ?thesis using S0 by (simp add: divide_right_mono)
    qed
    also have "\<dots> \<le> a / 2 ^ (p - 1)"
      using ge S0 by (simp add: field_simps)
    finally show ?thesis by (simp add: a_def)
  qed
qed

lemma floorlog_two_eq:
  assumes "2 ^ (k - 1) \<le> n" "n < 2 ^ k"
  shows "floorlog 2 n = k"
proof -
  have "floorlog 2 n \<le> k" using assms(2) by (intro floorlog_leI) simp_all
  moreover have "k \<le> floorlog 2 n" using assms(1) by (intro floorlog_geI) simp_all
  ultimately show ?thesis by simp
qed

lemma truncate_mantissa_ge_1:
  assumes l: "2 ^ (k - 1) \<le> x" and u: "x < 2 ^ k"
    and m: "of_int m \<le> x * 2 powi (int p - int k)" "x * 2 powi (int p - int k) < of_int m + 1"
  shows "truncate_mantissa p x = of_int m / 2 powi (int p - int k)"
proof -
  have one: "(1 :: rat) \<le> 2 ^ (k - 1)" by simp
  have x1: "1 \<le> x" using one l by (rule order_trans)
  define n where "n = nat \<lfloor>x\<rfloor>"
  have "(2 :: int) ^ (k - 1) \<le> \<lfloor>x\<rfloor>" using l by (simp add: le_floor_iff)
  then have "int (2 ^ (k - 1)) \<le> int n" using x1 by (simp add: n_def)
  then have nl: "2 ^ (k - 1) \<le> n" by (simp only: of_nat_le_iff)
  have "\<lfloor>x\<rfloor> < 2 ^ k" using u by (simp add: floor_less_iff)
  then have "int n < int (2 ^ k)" using x1 by (simp add: n_def)
  then have nu: "n < 2 ^ k" by (simp only: of_nat_less_iff)
  have "floorlog 2 n = k" using nl nu by (rule floorlog_two_eq)
  then have "mantissa_shift p x = int p - int k"
    using x1 by (simp add: mantissa_shift_def n_def)
  moreover have "\<bar>x\<bar> = x" "sgn x = 1" using x1 by simp_all
  moreover have "\<lfloor>x * 2 powi (int p - int k)\<rfloor> = m" using m by (rule floor_unique)
  ultimately show ?thesis by (simp add: truncate_mantissa_def)
qed

lemma truncate_mantissa_less_1:
  assumes x0: "0 < x" and x1: "x < 1"
    and l: "2 ^ (k - 1) \<le> 1 / x" and u: "1 / x < 2 ^ k"
    and m: "of_int m \<le> x * 2 powi (int p - 1 + int k)"
      "x * 2 powi (int p - 1 + int k) < of_int m + 1"
  shows "truncate_mantissa p x = of_int m / 2 powi (int p - 1 + int k)"
proof -
  define n where "n = nat \<lfloor>1 / x\<rfloor>"
  have i1: "1 \<le> 1 / x" using x0 x1 by simp
  have f0: "0 \<le> \<lfloor>1 / x\<rfloor>" using x0 by simp
  have "(2 :: int) ^ (k - 1) \<le> \<lfloor>1 / x\<rfloor>" using l by (simp add: le_floor_iff)
  then have "int (2 ^ (k - 1)) \<le> int n" using f0 by (simp add: n_def)
  then have nl: "2 ^ (k - 1) \<le> n" by (simp only: of_nat_le_iff)
  have "\<lfloor>1 / x\<rfloor> < 2 ^ k" using u by (simp add: floor_less_iff)
  then have "int n < int (2 ^ k)" using f0 by (simp add: n_def)
  then have nu: "n < 2 ^ k" by (simp only: of_nat_less_iff)
  have "floorlog 2 n = k" using nl nu by (rule floorlog_two_eq)
  then have "mantissa_shift p x = int p - 1 + int k"
    using x1 by (simp add: mantissa_shift_def n_def)
  moreover have "\<bar>x\<bar> = x" "sgn x = 1" using x0 by simp_all
  moreover have "\<lfloor>x * 2 powi (int p - 1 + int k)\<rfloor> = m" using m by (rule floor_unique)
  ultimately show ?thesis by (simp add: truncate_mantissa_def)
qed

subsection \<open>Error bounds of a rounded computation\<close>

lemma rounded_between:
  assumes r: "rounds_within eps rnd" and e: "0 \<le> eps" "eps \<le> 1"
    and b: "0 \<le> L" "L \<le> x" "x \<le> U"
  shows "L * (1 - eps) \<le> rnd x" and "rnd x \<le> U * (1 + eps)"
proof -
  have x0: "0 \<le> x" using b by simp
  have "\<bar>rnd x - x\<bar> \<le> eps * \<bar>x\<bar>" using r by (simp add: rounds_within_def)
  then have d: "\<bar>rnd x - x\<bar> \<le> eps * x" using x0 by simp
  have "L * (1 - eps) \<le> x * (1 - eps)" using b(2) e(2) by (simp add: mult_right_mono)
  moreover have "x * (1 - eps) \<le> rnd x" using d by (simp add: algebra_simps abs_le_iff)
  ultimately show "L * (1 - eps) \<le> rnd x" by simp
  have "x * (1 + eps) \<le> U * (1 + eps)" using b(3) e(1) by (simp add: mult_right_mono)
  moreover have "rnd x \<le> x * (1 + eps)" using d by (simp add: algebra_simps abs_le_iff)
  ultimately show "rnd x \<le> U * (1 + eps)" by simp
qed

lemma rounds_within_mirror:
  assumes "rounds_within eps rnd"
  shows "rounds_within eps (\<lambda>x. - rnd (- x))"
  unfolding rounds_within_def
proof
  fix x :: rat
  have "\<bar>rnd (- x) - (- x)\<bar> \<le> eps * \<bar>- x\<bar>"
    using assms unfolding rounds_within_def by (rule allE)
  moreover have "\<bar>- rnd (- x) - x\<bar> = \<bar>rnd (- x) - (- x)\<bar>"
    by (simp add: abs_minus_commute)
  ultimately show "\<bar>- rnd (- x) - x\<bar> \<le> eps * \<bar>x\<bar>" by simp
qed

lemma power_lower:
  fixes eps :: rat
  assumes "0 \<le> eps" "eps \<le> 1"
  shows "1 - of_nat n * eps \<le> (1 - eps) ^ n"
proof (induction n)
  case 0
  then show ?case by simp
next
  case (Suc n)
  have "1 - of_nat (Suc n) * eps \<le> (1 - of_nat n * eps) * (1 - eps)"
  proof -
    have "(1 - of_nat n * eps) * (1 - eps) = 1 - of_nat (Suc n) * eps + of_nat n * (eps * eps)"
      by (simp add: algebra_simps)
    moreover have "0 \<le> of_nat n * (eps * eps)" using assms(1) by simp
    ultimately show ?thesis by simp
  qed
  also have "\<dots> \<le> (1 - eps) ^ n * (1 - eps)"
    using Suc.IH assms(2) by (simp add: mult_right_mono)
  finally show ?case by (simp add: mult.commute)
qed

lemma power_upper:
  fixes eps :: rat
  assumes "0 \<le> eps" "of_nat n * eps \<le> 1"
  shows "(1 + eps) ^ n \<le> 1 + of_nat n * eps + (of_nat n * eps)\<^sup>2"
  using assms(2)
proof (induction n)
  case 0
  then show ?case by simp
next
  case (Suc n)
  define u where "u = of_nat n * eps"
  have u0: "0 \<le> u" using assms(1) by (simp add: u_def)
  have u1: "u + eps \<le> 1" using Suc.prems by (simp add: u_def algebra_simps)
  then have "of_nat n * eps \<le> 1" using assms(1) by (simp add: u_def)
  then have IH: "(1 + eps) ^ n \<le> 1 + u + u\<^sup>2" using Suc.IH by (simp add: u_def)
  have "(1 + eps) ^ Suc n = (1 + eps) ^ n * (1 + eps)" by simp
  also have "\<dots> \<le> (1 + u + u\<^sup>2) * (1 + eps)"
    using IH assms(1) by (simp add: mult_right_mono)
  also have "\<dots> \<le> 1 + (u + eps) + (u + eps)\<^sup>2"
  proof -
    have "u\<^sup>2 * eps \<le> u * eps"
    proof -
      have "u \<le> 1" using u1 assms(1) by simp
      then have "u * u \<le> 1 * u" using u0 by (intro mult_right_mono) simp_all
      then have "u * u * eps \<le> u * eps" using assms(1) by (simp add: mult_right_mono)
      then show ?thesis by (simp add: power2_eq_square)
    qed
    moreover have "0 \<le> eps * eps" using assms(1) by simp
    moreover have "(1 + u + u\<^sup>2) * (1 + eps) = 1 + u + eps + u\<^sup>2 + u * eps + u\<^sup>2 * eps"
      by (simp add: algebra_simps)
    moreover have "(u + eps)\<^sup>2 = u\<^sup>2 + 2 * (u * eps) + eps * eps"
      by (simp add: power2_eq_square algebra_simps)
    moreover have "0 \<le> u * eps" using u0 assms(1) by simp
    ultimately show ?thesis by linarith
  qed
  also have "u + eps = of_nat (Suc n) * eps" by (simp add: u_def algebra_simps)
  finally show ?case .
qed

text \<open>
  The two products of the round trip, with three roundings and two rounded constants
  whose exact values are inverse to each other: the result is the argument times a
  factor between \<open>(1 - eps) ^ 5\<close> and \<open>(1 + eps) ^ 5\<close>.
\<close>

lemma products_interval:
  assumes r: "rounds_within eps R" and e0: "0 \<le> eps" and el: "eps \<le> 1"
    and q0: "0 < q" and qi0: "0 < qi" and qqi: "qi * q = 1"
    and c1b: "q * (1 - eps) \<le> c1" "c1 \<le> q * (1 + eps)"
    and c2b: "qi * (1 - eps) \<le> c2" "c2 \<le> qi * (1 + eps)"
    and s0: "0 \<le> s"
  shows "s * (1 - eps) ^ 5 \<le> R (c2 * R (c1 * R s))"
    and "R (c2 * R (c1 * R s)) \<le> s * (1 + eps) ^ 5"
proof -
  define lo where "lo = 1 - eps"
  define hi where "hi = 1 + eps"
  have lo0: "0 \<le> lo" and hi0: "0 \<le> hi" using e0 el by (simp_all add: lo_def hi_def)
  note rb = rounded_between [OF r e0 el]
  have c1b': "q * lo \<le> c1" "c1 \<le> q * hi" using c1b by (simp_all add: lo_def hi_def)
  have c2b': "qi * lo \<le> c2" "c2 \<le> qi * hi" using c2b by (simp_all add: lo_def hi_def)
  have sb: "s * lo \<le> R s" "R s \<le> s * hi"
    using rb [of s s s] s0 by (simp_all add: lo_def hi_def)
  have c10: "0 \<le> c1" using c1b'(1) q0 lo0 by (meson mult_nonneg_nonneg less_imp_le order_trans)
  have c20: "0 \<le> c2" using c2b'(1) qi0 lo0 by (meson mult_nonneg_nonneg less_imp_le order_trans)
  have rs0: "0 \<le> R s" using sb(1) s0 lo0 by (meson mult_nonneg_nonneg order_trans)
  have p1: "(q * lo) * (s * lo) \<le> c1 * R s"
    using c1b'(1) sb(1) q0 lo0 s0 c10 by (intro mult_mono) simp_all
  have p1u: "c1 * R s \<le> (q * hi) * (s * hi)"
    using c1b'(2) sb(2) q0 hi0 s0 c10 rs0 by (intro mult_mono) simp_all
  have p10: "0 \<le> (q * lo) * (s * lo)" using q0 lo0 s0 by simp
  define v where "v = R (c1 * R s)"
  have vb: "(q * lo) * (s * lo) * lo \<le> v" "v \<le> (q * hi) * (s * hi) * hi"
    using rb [OF p10 p1 p1u] by (simp_all add: v_def lo_def hi_def)
  have v0: "0 \<le> v" using vb(1) p10 lo0 by (meson mult_nonneg_nonneg order_trans)
  have p2: "(qi * lo) * ((q * lo) * (s * lo) * lo) \<le> c2 * v"
    using c2b'(1) vb(1) qi0 lo0 p10 c20 by (intro mult_mono) simp_all
  have p2u: "c2 * v \<le> (qi * hi) * ((q * hi) * (s * hi) * hi)"
    using c2b'(2) vb(2) qi0 hi0 v0 c20 by (intro mult_mono) simp_all
  have l4: "(qi * lo) * ((q * lo) * (s * lo) * lo) = s * lo ^ 4"
  proof -
    have "(qi * lo) * ((q * lo) * (s * lo) * lo) = (qi * q) * (s * lo ^ 4)"
      by (simp add: power4_eq_xxxx mult_ac)
    then show ?thesis by (simp add: qqi)
  qed
  have u4: "(qi * hi) * ((q * hi) * (s * hi) * hi) = s * hi ^ 4"
  proof -
    have "(qi * hi) * ((q * hi) * (s * hi) * hi) = (qi * q) * (s * hi ^ 4)"
      by (simp add: power4_eq_xxxx mult_ac)
    then show ?thesis by (simp add: qqi)
  qed
  have p20: "0 \<le> s * lo ^ 4" using s0 lo0 by simp
  define y where "y = R (c2 * v)"
  have yb: "s * lo ^ 4 * lo \<le> y" "y \<le> s * hi ^ 4 * hi"
    using rb [OF p20 p2 [unfolded l4] p2u [unfolded u4]] by (simp_all add: y_def lo_def hi_def)
  have "s * lo ^ 5 \<le> y" "y \<le> s * hi ^ 5"
    using yb by (simp_all add: power_numeral_reduce mult_ac)
  then show "s * (1 - eps) ^ 5 \<le> R (c2 * R (c1 * R s))"
    and "R (c2 * R (c1 * R s)) \<le> s * (1 + eps) ^ 5"
    unfolding y_def v_def lo_def hi_def by simp_all
qed

lemma conversion_constants:
  assumes r: "rounds_within eps rnd" and e0: "0 \<le> eps" and el: "eps \<le> 1"
    and vsf: "10 * VSF \<noteq> (0 :: uint32)"
  defines "q \<equiv> float32e8 (10 * VSF) (36 * 1024)"
    and "qi \<equiv> float32e8 (36 * 1024) (10 * VSF)"
  shows "0 < q" and "0 < qi" and "qi * q = 1"
    and "q * (1 - eps) \<le> simspeed2ms rnd VSF" and "simspeed2ms rnd VSF \<le> q * (1 + eps)"
    and "qi * (1 - eps) \<le> ms2simspeed rnd VSF" and "ms2simspeed rnd VSF \<le> qi * (1 + eps)"
proof -
  have "0 < unat (10 * VSF)" using vsf by (simp add: unat_gt_0)
  then have A: "(of_nat (unat (10 * VSF)) :: rat) > 0"
    by (simp only: of_nat_0_less_iff)
  show q0: "0 < q" using A by (simp add: q_def float32e8_def)
  show qi0: "0 < qi" using A by (simp add: qi_def float32e8_def)
  show "qi * q = 1" using A by (simp add: q_def qi_def float32e8_def)
  note rb = rounded_between [OF r e0 el]
  show "q * (1 - eps) \<le> simspeed2ms rnd VSF" and "simspeed2ms rnd VSF \<le> q * (1 + eps)"
    using rb [of q q q] q0 by (simp_all add: simspeed2ms_def q_def)
  show "qi * (1 - eps) \<le> ms2simspeed rnd VSF" and "ms2simspeed rnd VSF \<le> qi * (1 + eps)"
    using rb [of qi qi qi] qi0 by (simp_all add: ms2simspeed_def qi_def)
qed

text \<open>
  Where the bias of one half and the last rounding leave the result: within the unit
  interval above \<open>s\<close> when \<open>half\<close> is added to a value near \<open>s\<close>, within the unit interval
  below \<open>s\<close> when it is taken from it.
\<close>

lemma biased_interval:
  fixes eps s :: rat
  assumes e0: "0 \<le> eps" and e1: "eps \<le> 1 / 36" and s0: "0 \<le> s"
    and b: "14 * eps * s + eps < 1"
  shows "s \<le> (s * (1 - eps) ^ 5 + 1 / 2) * (1 - eps)"
    and "(s * (1 + eps) ^ 5 + 1 / 2) * (1 + eps) < s + 1"
    and "s - 1 \<le> (s * (1 - eps) ^ 5 - 1 / 2) * (1 - eps)"
    and "(s * (1 + eps) ^ 5 - 1 / 2) * (1 + eps) < s"
    and "1 \<le> s \<Longrightarrow> 0 \<le> s * (1 - eps) ^ 5 - 1 / 2"
proof -
  define t where "t = eps * s"
  define L5 where "L5 = (1 - eps) ^ 5"
  define H5 where "H5 = (1 + eps) ^ 5"
  have el: "eps \<le> 1" using e1 by simp
  have l6: "1 - 6 * eps \<le> L5 * (1 - eps)"
    using power_lower [OF e0 el, of 6] by (simp add: L5_def power_numeral_reduce mult_ac)
  have l5: "1 - 5 * eps \<le> L5"
    using power_lower [OF e0 el, of 5] by (simp add: L5_def)
  have six: "of_nat 6 * eps \<le> 1" using e1 by simp
  have "eps * (36 * eps) \<le> eps * 1" using e0 e1 by (intro mult_left_mono) simp_all
  then have sq: "(of_nat 6 * eps)\<^sup>2 \<le> eps" by (simp add: power2_eq_square)
  have "(1 + eps) ^ 6 \<le> 1 + of_nat 6 * eps + (of_nat 6 * eps)\<^sup>2"
    using e0 six by (rule power_upper)
  then have "(1 + eps) ^ 6 \<le> 1 + 7 * eps" using sq by simp
  then have u6: "H5 * (1 + eps) \<le> 1 + 7 * eps"
    by (simp add: H5_def power_numeral_reduce mult_ac)
  define X where "X = s * (L5 * (1 - eps))"
  define Y where "Y = s * (H5 * (1 + eps))"
  have "s * (1 - 6 * eps) \<le> X" unfolding X_def using l6 s0 by (rule mult_left_mono)
  then have A: "s - 6 * t \<le> X" by (simp add: t_def algebra_simps)
  have "Y \<le> s * (1 + 7 * eps)" unfolding Y_def using u6 s0 by (rule mult_left_mono)
  then have B: "Y \<le> s + 7 * t" by (simp add: t_def algebra_simps)
  have b': "14 * t + eps < 1" using b by (simp add: t_def mult_ac)
  have t0: "0 \<le> t" using e0 s0 by (simp add: t_def)
  have E1: "(s * L5 + 1 / 2) * (1 - eps) = X + (1 - eps) / 2"
    by (simp add: X_def algebra_simps)
  have E2: "(s * H5 + 1 / 2) * (1 + eps) = Y + (1 + eps) / 2"
    by (simp add: Y_def algebra_simps)
  have E3: "(s * L5 - 1 / 2) * (1 - eps) = X - (1 - eps) / 2"
    by (simp add: X_def algebra_simps)
  have E4: "(s * H5 - 1 / 2) * (1 + eps) = Y - (1 + eps) / 2"
    by (simp add: Y_def algebra_simps)
  show "s \<le> (s * (1 - eps) ^ 5 + 1 / 2) * (1 - eps)"
    unfolding L5_def [symmetric] E1 using A b' t0 e0 by (simp add: field_simps)
  show "(s * (1 + eps) ^ 5 + 1 / 2) * (1 + eps) < s + 1"
    unfolding H5_def [symmetric] E2 using B b' t0 e0 by (simp add: field_simps)
  show "s - 1 \<le> (s * (1 - eps) ^ 5 - 1 / 2) * (1 - eps)"
    unfolding L5_def [symmetric] E3 using A b' t0 e0 by (simp add: field_simps)
  show "(s * (1 + eps) ^ 5 - 1 / 2) * (1 + eps) < s"
    unfolding H5_def [symmetric] E4 using B b' t0 e0 by (simp add: field_simps)
  show "0 \<le> s * (1 - eps) ^ 5 - 1 / 2" if "1 \<le> s"
  proof -
    have L50: "0 \<le> L5" using l5 e1 by linarith
    have "1 * L5 \<le> s * L5" using that L50 by (rule mult_right_mono)
    then show ?thesis unfolding L5_def [symmetric] using l5 e1 by linarith
  qed
qed

subsection \<open>The round trip\<close>

lemma round_trip_nonneg:
  assumes r: "rounds_within eps rnd" and e0: "0 \<le> eps" and e1: "eps \<le> 1 / 36"
    and vsf: "10 * VSF \<noteq> (0 :: uint32)" and k0: "0 \<le> k"
    and b: "14 * eps * of_int k + eps < 1"
  shows "to_sint32 (rnd (rnd (ms2simspeed rnd VSF * rnd (simspeed2ms rnd VSF * rnd (of_int k))) + half))
       = word_of_int k"
proof -
  define y where "y = rnd (ms2simspeed rnd VSF * rnd (simspeed2ms rnd VSF * rnd (of_int k)))"
  define z where "z = rnd (y + half)"
  define s where "s = (of_int k :: rat)"
  have el: "eps \<le> 1" using e1 by simp
  have s0: "0 \<le> s" using k0 by (simp add: s_def)
  note cc = conversion_constants [OF r e0 el vsf]
  have yb: "s * (1 - eps) ^ 5 \<le> y" "y \<le> s * (1 + eps) ^ 5"
    unfolding y_def s_def [symmetric]
    using products_interval [OF r e0 el cc s0] by blast+
  have h: "half = 1 / 2" by (simp add: half_def float32e8_def)
  have lo0: "0 \<le> 1 - eps" using el by simp
  have z0: "0 \<le> s * (1 - eps) ^ 5 + 1 / 2" using s0 lo0 by simp
  have zl: "s * (1 - eps) ^ 5 + 1 / 2 \<le> y + half"
    and zu: "y + half \<le> s * (1 + eps) ^ 5 + 1 / 2"
    using yb by (simp_all add: h)
  have zb: "(s * (1 - eps) ^ 5 + 1 / 2) * (1 - eps) \<le> z"
    "z \<le> (s * (1 + eps) ^ 5 + 1 / 2) * (1 + eps)"
    unfolding z_def using rounded_between [OF r e0 el z0 zl zu] by blast+
  note bi = biased_interval [OF e0 e1 s0 b [folded s_def]]
  have l: "of_int k \<le> z" using bi(1) zb(1) unfolding s_def by (rule order_trans)
  have u: "z < of_int k + 1" using zb(2) bi(2) unfolding s_def by (rule le_less_trans)
  have fl: "\<lfloor>z\<rfloor> = k" using l u by (rule floor_unique)
  have "(0 :: rat) \<le> of_int k" using k0 by simp
  then have "0 \<le> z" using l by (rule order_trans)
  then have "to_sint32 z = word_of_int k" by (simp add: to_sint32_def fl)
  then show ?thesis unfolding z_def y_def .
qed

lemma round_trip_neg:
  assumes r: "rounds_within eps rnd" and e0: "0 \<le> eps" and e1: "eps \<le> 1 / 36"
    and vsf: "10 * VSF \<noteq> (0 :: uint32)" and k0: "0 < k"
    and b: "14 * eps * of_int k + eps < 1"
  shows "to_sint32 (rnd (rnd (ms2simspeed rnd VSF * rnd (simspeed2ms rnd VSF * rnd (of_int (- k)))) + half))
       = word_of_int (1 - k)"
proof -
  define R where "R = (\<lambda>x. - rnd (- x))"
  have rR: "rounds_within eps R" unfolding R_def using r by (rule rounds_within_mirror)
  have m: "rnd (- x) = - R x" for x by (simp add: R_def)
  define c1 where "c1 = simspeed2ms rnd VSF"
  define c2 where "c2 = ms2simspeed rnd VSF"
  define s where "s = (of_int k :: rat)"
  define y where "y = R (c2 * R (c1 * R s))"
  define z where "z = rnd (rnd (c2 * rnd (c1 * rnd (of_int (- k)))) + half)"
  have h: "half = 1 / 2" by (simp add: half_def float32e8_def)
  have "rnd (of_int (- k)) = - R s" by (simp add: s_def m)
  then have "rnd (c1 * rnd (of_int (- k))) = - R (c1 * R s)"
    by (simp add: m)
  then have "rnd (c2 * rnd (c1 * rnd (of_int (- k)))) = - y"
    by (simp add: m y_def)
  then have "z = rnd (- y + half)" by (simp only: z_def)
  also have "- y + half = - (y - 1 / 2)" by (simp add: h)
  finally have zy: "z = - R (y - 1 / 2)" by (simp only: m)
  have el: "eps \<le> 1" using e1 by simp
  have s1: "1 \<le> s" using k0 by (simp add: s_def)
  then have s0: "0 \<le> s" by simp
  note cc = conversion_constants [OF r e0 el vsf]
  have yb: "s * (1 - eps) ^ 5 \<le> y" "y \<le> s * (1 + eps) ^ 5"
    unfolding y_def c1_def c2_def
    using products_interval [OF rR e0 el cc s0] by blast+
  note bi = biased_interval [OF e0 e1 s0 b [folded s_def]]
  have w0: "0 \<le> s * (1 - eps) ^ 5 - 1 / 2" using s1 by (rule bi(5))
  have wl: "s * (1 - eps) ^ 5 - 1 / 2 \<le> y - 1 / 2"
    and wu: "y - 1 / 2 \<le> s * (1 + eps) ^ 5 - 1 / 2"
    using yb by simp_all
  have wb: "(s * (1 - eps) ^ 5 - 1 / 2) * (1 - eps) \<le> R (y - 1 / 2)"
    "R (y - 1 / 2) \<le> (s * (1 + eps) ^ 5 - 1 / 2) * (1 + eps)"
    using rounded_between [OF rR e0 el w0 wl wu] by blast+
  have l: "s - 1 \<le> R (y - 1 / 2)" using bi(3) wb(1) by (rule order_trans)
  have u: "R (y - 1 / 2) < s" using wb(2) bi(4) by (rule le_less_trans)
  have zl: "of_int (1 - k) - 1 < z" using u by (simp add: zy s_def)
  have zu: "z \<le> of_int (1 - k)" using l by (simp add: zy s_def)
  have ce: "\<lceil>z\<rceil> = 1 - k" using zl zu by (rule ceiling_unique)
  have "to_sint32 z = word_of_int (1 - k)"
  proof (cases "0 \<le> z")
    case True
    have "(of_int (1 - k) :: rat) \<le> 0" using k0 by simp
    with zu have "z \<le> 0" by (rule order_trans)
    then have z: "z = 0" using True by simp
    then have "(0 :: rat) \<le> of_int (1 - k)" using zu by simp
    then have "0 \<le> 1 - k" by (simp only: of_int_0_le_iff)
    then have "k = 1" using k0 by simp
    then show ?thesis by (simp add: to_sint32_def z)
  next
    case False
    then show ?thesis by (simp add: to_sint32_def ce)
  qed
  then show ?thesis unfolding z_def c1_def c2_def .
qed

lemma round_trip_negative_value:
  assumes r: "rounds_within eps rnd" and e0: "0 \<le> eps" and e1: "eps \<le> 1 / 36"
    and vsf: "10 * VSF \<noteq> (0 :: uint32)" and s: "sint s < 0"
    and b: "14 * eps * of_int (- sint s) + eps < 1"
  shows "v_to_speed rnd VSF (speed_to_v rnd VSF s) = s + 1"
proof -
  have k0: "0 < - sint s" using s by simp
  have "v_to_speed rnd VSF (speed_to_v rnd VSF s)
      = to_sint32 (rnd (rnd (ms2simspeed rnd VSF
          * rnd (simspeed2ms rnd VSF * rnd (of_int (- (- sint s))))) + half))"
    by (simp only: v_to_speed_def speed_to_v_def minus_minus)
  also have "\<dots> = word_of_int (1 - (- sint s))"
    using r e0 e1 vsf k0 b by (rule round_trip_neg)
  also have "\<dots> = s + 1" by simp
  finally show ?thesis .
qed

text \<open>
  The largest \<open>sint32\<close> with a mantissa of 32 bits and \<open>VEHICLE_SPEED_FACTOR = 80\<close>: the
  constants are \<open>25 / 1152\<close> and \<open>1152 / 25\<close>, and each result is cut to 32 bits.
\<close>

lemma truncated_round_trip_of_max:
  "v_to_speed (truncate_mantissa 32) 80 (speed_to_v (truncate_mantissa 32) 80 2147483647)
     = 2147483646"
proof -
  have q: "float32e8 (10 * 80) (36 * 1024) = 25 / 1152"
    and qi: "float32e8 (36 * 1024) (10 * 80) = 1152 / 25"
    and h: "half = 1 / 2"
    by (simp_all add: float32e8_def half_def)
  have c1: "simspeed2ms (truncate_mantissa 32) 80 = 2982616177 / 137438953472"
    unfolding simspeed2ms_def q
    using truncate_mantissa_less_1 [of "25 / 1152" 6 2982616177 32] by simp
  have c2: "ms2simspeed (truncate_mantissa 32) 80 = 3092376453 / 67108864"
    unfolding ms2simspeed_def qi
    using truncate_mantissa_ge_1 [of 6 "1152 / 25" 3092376453 32] by simp
  have s: "truncate_mantissa 32 (of_int (sint (2147483647 :: sint32))) = 2147483647"
    using truncate_mantissa_ge_1 [of 31 2147483647 4294967294 32] by simp
  have v: "truncate_mantissa 32 (2982616177 / 137438953472 * 2147483647) = 2982616175 / 64"
    using truncate_mantissa_ge_1
      [of 26 "2982616177 / 137438953472 * 2147483647" 2982616175 32]
    by simp
  have y: "truncate_mantissa 32 (3092376453 / 67108864 * (2982616175 / 64)) = 4294967291 / 2"
    using truncate_mantissa_ge_1
      [of 31 "3092376453 / 67108864 * (2982616175 / 64)" 4294967291 32]
    by simp
  have z: "truncate_mantissa 32 (4294967291 / 2 + 1 / 2) = 2147483646"
    using truncate_mantissa_ge_1 [of 31 "4294967291 / 2 + 1 / 2" 4294967292 32] by simp
  have "speed_to_v (truncate_mantissa 32) 80 2147483647 = 2982616175 / 64"
    by (simp only: speed_to_v_def c1 s v)
  then have "v_to_speed (truncate_mantissa 32) 80
        (speed_to_v (truncate_mantissa 32) 80 2147483647) = to_sint32 2147483646"
    by (simp only: v_to_speed_def c2 y h z)
  then show ?thesis by (simp add: to_sint32_def)
qed

text \<open>
  C5, as amended. Let every operation of \<open>float32e8_t\<close> round its exact result by \<open>rnd\<close>,
  which moves no value by more than the fraction \<open>eps\<close> of it, with \<open>eps\<close> at most
  \<open>1 / 36\<close>, and let \<open>10 * VEHICLE_SPEED_FACTOR\<close> not be zero. Then converting a \<open>sint32\<close>
  speed \<open>s\<close> that is not negative and satisfies \<open>14 * eps * s + eps < 1\<close> to m/s and back
  gives \<open>s\<close> again: the two products carry five roundings, so the value before the bias
  is within \<open>s * (1 - eps) ^ 5\<close> and \<open>s * (1 + eps) ^ 5\<close>, and adding \<open>half\<close>, rounding
  once more and truncating returns \<open>s\<close>. With exact arithmetic (\<open>eps = 0\<close>, \<open>rnd = id\<close>) this holds for every \<open>s\<close> that is not negative; with a mantissa of 32 bits
  that is cut (\<open>eps = 1 / 2 ^ 31\<close>) it holds for \<open>s\<close> up to 153391689.
\<close>

theorem speed_round_trip:
  assumes "rounds_within eps rnd" and "0 \<le> eps" and "eps \<le> 1 / 36"
    and "10 * VSF \<noteq> 0" and "0 \<le> sint s"
    and "14 * eps * of_int (sint s) + eps < 1"
  shows "v_to_speed rnd VSF (speed_to_v rnd VSF s) = s"
proof -
  have "v_to_speed rnd VSF (speed_to_v rnd VSF s)
      = to_sint32 (rnd (rnd (ms2simspeed rnd VSF
          * rnd (simspeed2ms rnd VSF * rnd (of_int (sint s)))) + half))"
    by (simp only: v_to_speed_def speed_to_v_def)
  also have "\<dots> = word_of_int (sint s)"
    using assms by (rule round_trip_nonneg)
  also have "\<dots> = s" by simp
  finally show ?thesis .
qed

theorem speed_round_trip_witness:
  "rounds_within (1 / 2 ^ 31) (truncate_mantissa 32)
   \<and> (0 :: rat) \<le> 1 / 2 ^ 31 \<and> (1 :: rat) / 2 ^ 31 \<le> 1 / 36
   \<and> 10 * 80 \<noteq> (0 :: uint32) \<and> 0 \<le> sint (153391689 :: sint32)
   \<and> 14 * (1 / 2 ^ 31) * rat_of_int (sint (153391689 :: sint32)) + 1 / 2 ^ 31 < 1
   \<and> v_to_speed (truncate_mantissa 32) 80 (speed_to_v (truncate_mantissa 32) 80 153391689)
       = 153391689
   \<and> rounds_within 0 id
   \<and> v_to_speed id 80 (speed_to_v id 80 2147483647) = 2147483647"
proof -
  have r: "rounds_within (1 / 2 ^ 31) (truncate_mantissa 32)"
    using truncate_mantissa_rounds_within [of 32] by simp
  have i: "rounds_within 0 id" by (simp add: rounds_within_def)
  have a: "v_to_speed (truncate_mantissa 32) 80
      (speed_to_v (truncate_mantissa 32) 80 153391689) = 153391689"
    using r by (rule speed_round_trip) simp_all
  have b: "v_to_speed id 80 (speed_to_v id 80 2147483647) = 2147483647"
    using i by (rule speed_round_trip) simp_all
  show ?thesis using r i a b by simp
qed

theorem speed_round_trip_counterexample:
  "v_to_speed (truncate_mantissa 32) 80 (speed_to_v (truncate_mantissa 32) 80 (- 1)) = 0
   \<and> v_to_speed id 80 (speed_to_v id 80 (- 1)) = 0
   \<and> v_to_speed (truncate_mantissa 32) 80 (speed_to_v (truncate_mantissa 32) 80 2147483647)
       = 2147483646"
proof -
  have r: "rounds_within (1 / 2 ^ 31) (truncate_mantissa 32)"
    using truncate_mantissa_rounds_within [of 32] by simp
  have i: "rounds_within 0 id" by (simp add: rounds_within_def)
  have a: "v_to_speed (truncate_mantissa 32) 80
      (speed_to_v (truncate_mantissa 32) 80 (- 1)) = - 1 + 1"
    using r by (rule round_trip_negative_value) simp_all
  have b: "v_to_speed id 80 (speed_to_v id 80 (- 1)) = - 1 + 1"
    using i by (rule round_trip_negative_value) simp_all
  show ?thesis using a b truncated_round_trip_of_max by simp
qed

section \<open>Properties of the engine force\<close>

lemma to_sint32_abs_zero_iff:
  assumes "\<bar>x\<bar> < 2 ^ 31"
  shows "(to_sint32 \<bar>x\<bar> = 0) = (\<bar>x\<bar> < 1)"
    and "sint (to_sint32 \<bar>x\<bar>) = \<lfloor>\<bar>x\<bar>\<rfloor>"
proof -
  have nn: "0 \<le> \<lfloor>\<bar>x\<bar>\<rfloor>" by simp
  have "\<lfloor>\<bar>x\<bar>\<rfloor> < 2 ^ 31"
    using assms by (simp add: floor_less_iff)
  then have s: "sint (word_of_int \<lfloor>\<bar>x\<bar>\<rfloor> :: sint32) = \<lfloor>\<bar>x\<bar>\<rfloor>"
    using nn by (simp add: sint_sbintrunc' signed_take_bit_int_eq_self)
  have t: "to_sint32 \<bar>x\<bar> = word_of_int \<lfloor>\<bar>x\<bar>\<rfloor>"
    by (simp add: to_sint32_def)
  show "sint (to_sint32 \<bar>x\<bar>) = \<lfloor>\<bar>x\<bar>\<rfloor>" by (simp only: t s)
  have "(to_sint32 \<bar>x\<bar> = 0) = (sint (to_sint32 \<bar>x\<bar>) = 0)"
    by (simp add: signed_eq_0_iff)
  also have "\<dots> = (\<lfloor>\<bar>x\<bar>\<rfloor> = 0)" by (simp only: t s)
  also have "\<dots> = (\<bar>x\<bar> < 1)" by (simp add: floor_eq_iff)
  finally show "(to_sint32 \<bar>x\<bar> = 0) = (\<bar>x\<bar> < 1)" .
qed

text \<open>
  C10. \<open>get_force\<close> returns \<open>get_starting_force()\<close> for every speed of magnitude
  below 1 m/s, not only at speed zero. For every other speed (of magnitude below
  \<open>2^31\<close>, so that the truncated magnitude is a \<open>sint32\<close>) it returns
  \<open>get_force_summary\<close> at the truncated magnitude, times 1000. The result for \<open>- speed\<close>
  is the result for \<open>speed\<close>.
\<close>

theorem get_force_by_magnitude:
  "(\<bar>speed\<bar> < 1 \<longrightarrow> get_force starting_force_of force_summary_of speed s = starting_force_of s)
   \<and> (1 \<le> \<bar>speed\<bar> \<and> \<bar>speed\<bar> < 2 ^ 31 \<longrightarrow>
        get_force starting_force_of force_summary_of speed s
          = (fst (force_summary_of (to_sint32 \<bar>speed\<bar>) s) * 1000,
             snd (force_summary_of (to_sint32 \<bar>speed\<bar>) s))
        \<and> sint (to_sint32 \<bar>speed\<bar>) = \<lfloor>\<bar>speed\<bar>\<rfloor>)
   \<and> get_force starting_force_of force_summary_of (- speed) s
       = get_force starting_force_of force_summary_of speed s"
proof -
  have small: "get_force starting_force_of force_summary_of speed s = starting_force_of s"
    if "\<bar>speed\<bar> < 1"
  proof -
    have "\<bar>speed\<bar> < 2 ^ 31" using that by simp
    then have "to_sint32 \<bar>speed\<bar> = 0" using that by (simp add: to_sint32_abs_zero_iff)
    then show ?thesis by (simp add: get_force_def)
  qed
  have large: "get_force starting_force_of force_summary_of speed s
          = (fst (force_summary_of (to_sint32 \<bar>speed\<bar>) s) * 1000,
             snd (force_summary_of (to_sint32 \<bar>speed\<bar>) s))
        \<and> sint (to_sint32 \<bar>speed\<bar>) = \<lfloor>\<bar>speed\<bar>\<rfloor>"
    if "1 \<le> \<bar>speed\<bar>" "\<bar>speed\<bar> < 2 ^ 31"
  proof -
    have "to_sint32 \<bar>speed\<bar> \<noteq> 0"
      using that by (simp add: to_sint32_abs_zero_iff(1))
    then show ?thesis
      using to_sint32_abs_zero_iff(2) [OF that(2)]
      by (simp add: get_force_def split: prod.split)
  qed
  have sym: "get_force starting_force_of force_summary_of (- speed) s
       = get_force starting_force_of force_summary_of speed s"
    by (simp add: get_force_def)
  show ?thesis using small large sym by blast
qed

theorem get_force_by_magnitude_witness:
  "get_force (\<lambda>s. (7000, s)) (\<lambda>v s. (v, s)) (1 / 2) () = (7000, ())
   \<and> get_force (\<lambda>s. (7000, s)) (\<lambda>v s. (v, s)) (- (7 / 2)) () = (3000, ())
   \<and> get_force (\<lambda>s. (7000, s)) (\<lambda>v s. (v, s)) (7 / 2) () = (3000, ())"
proof -
  have "\<lfloor>(7 / 2 :: rat)\<rfloor> = 3" by (simp add: floor_unique)
  then have t: "to_sint32 (7 / 2) = 3" by (simp add: to_sint32_def)
  show ?thesis
    using get_force_by_magnitude [of "1 / 2" "\<lambda>s. (7000, s)" "\<lambda>v s. (v, s)" "()"]
      get_force_by_magnitude [of "7 / 2" "\<lambda>s. (7000, s)" "\<lambda>v s. (v, s)" "()"]
    by (simp add: t)
qed

section \<open>Termination of the speed search\<close>

lemma search_max_speed_returns:
  "\<exists>vmax n. search_max_speed gfs a Frs tol N i vl vu = Some (vmax, n) \<and> i \<le> n \<and> n \<le> max N i"
proof (induction "N - i" arbitrary: i vl vu)
  case 0
  then have "N \<le> i" by simp
  then show ?case by (subst search_max_speed.simps) simp
next
  case (Suc k)
  then have lt: "i < N" by simp
  have k: "k = N - Suc i" using Suc.hyps(2) by simp
  show ?case
  proof (cases "vu - vl \<le> tol")
    case True
    then show ?thesis by (subst search_max_speed.simps) simp
  next
    case False
    let ?vm = "(vl + vu) / 2"
    show ?thesis
    proof (cases "can_hold gfs a Frs ?vm")
      case True
      from Suc.hyps(1) [OF k, of ?vm vu] obtain vmax n
        where r: "search_max_speed gfs a Frs tol N (Suc i) ?vm vu = Some (vmax, n)"
          "Suc i \<le> n" "n \<le> max N (Suc i)" by blast
      have "search_max_speed gfs a Frs tol N i vl vu = Some (vmax, n)"
        using lt False True r(1) by (subst search_max_speed.simps) (simp add: Let_def)
      then show ?thesis using r(2,3) lt by auto
    next
      case no: False
      from Suc.hyps(1) [OF k, of vl ?vm] obtain vmax n
        where r: "search_max_speed gfs a Frs tol N (Suc i) vl ?vm = Some (vmax, n)"
          "Suc i \<le> n" "n \<le> max N (Suc i)" by blast
      have "search_max_speed gfs a Frs tol N i vl vu = Some (vmax, n)"
        using lt False no r(1) by (subst search_max_speed.simps) (simp add: Let_def)
      then show ?thesis using r(2,3) lt by auto
    qed
  qed
qed

lemma sint_min_le: "sint (min_sint32 a b) \<le> sint a"
  by (simp add: min_sint32_def)

text \<open>
  C8. \<open>calc_max_speed\<close> returns on every input: the search over the force curve stops
  after at most \<open>MAX_ITERATIONS\<close> iterations, whatever the force curve
  \<open>get_force_summary\<close> and the tolerance are, and the result is not above the speed
  cap of the vehicle summary.
\<close>

theorem calc_max_speed_terminates:
  "(\<exists>r. calc_max_speed tol N gfs v a wgt = Some r \<and> sint r \<le> sint (max_speed v))
   \<and> (\<exists>vmax n. search_max_speed gfs a Frs tol N 0 vl vu = Some (vmax, n) \<and> n \<le> N)"
proof -
  have s: "\<exists>vmax n. search_max_speed gfs a F tol N 0 l u = Some (vmax, n) \<and> n \<le> N" for F l u
    using search_max_speed_returns [of gfs a F tol N 0 l u] by auto
  let ?Frs = "g_accel * (fr a * weight_cos wgt + weight_sin wgt)"
  let ?vcap = "kmh2ms * of_int (sint (max_speed v))"
  from s [of ?Frs 0 ?vcap] obtain vmax n
    where r: "search_max_speed gfs a ?Frs tol N 0 0 ?vcap = Some (vmax, n)" by blast
  have "calc_max_speed tol N gfs v a wgt
      = (if can_hold gfs a ?Frs ?vcap then Some (max_speed v)
         else Some (min_sint32 (max_speed v) (to_sint32 (vmax * ms2kmh + half))))"
    unfolding calc_max_speed_def Let_def r by simp
  then have "\<exists>r. calc_max_speed tol N gfs v a wgt = Some r \<and> sint r \<le> sint (max_speed v)"
    by (simp add: sint_min_le)
  then show ?thesis using s by blast
qed

lemma floor_halves: "\<lfloor>(55 / 2 :: rat)\<rfloor> = 27" "\<lfloor>(15 / 2 :: rat)\<rfloor> = 7"
  by (simp_all add: floor_unique)

theorem calc_max_speed_terminates_witness:
  "calc_max_speed 0 3 (\<lambda>x. if even (unat x) then - 5 else 5)
     \<lparr>length_sum = 8, tiles = 1, weight = 20000, max_speed = 72\<rparr>
     \<lparr>cf = 13, fr = 51 / 10000, br = 1 / 2, adverse_max_speed = 72\<rparr>
     \<lparr>weight_kg = 20000, weight_cos = 20000, weight_sin = 0\<rparr> = Some 27
   \<and> sint (27 :: sint32) \<le> sint (max_speed \<lparr>length_sum = 8, tiles = 1, weight = 20000, max_speed = 72\<rparr>)"
proof -
  have e: "calc_max_speed 0 3 (\<lambda>x. if even (unat x) then - 5 else 5)
     \<lparr>length_sum = 8, tiles = 1, weight = 20000, max_speed = 72\<rparr>
     \<lparr>cf = 13, fr = 51 / 10000, br = 1 / 2, adverse_max_speed = 72\<rparr>
     \<lparr>weight_kg = 20000, weight_cos = 20000, weight_sin = 0\<rparr> = Some 27"
    by (simp add: calc_max_speed_def Let_def can_hold_def curve_force_def get_force_def
        kmh2ms_def ms2kmh_def g_accel_def float32e8_def to_sint32_def half_def
        search_max_speed.simps min_sint32_def floor_halves)
  from calc_max_speed_terminates
    [of 0 3 "\<lambda>x. if even (unat x) then - 5 else 5"
      "\<lparr>length_sum = 8, tiles = 1, weight = 20000, max_speed = 72\<rparr>"
      "\<lparr>cf = 13, fr = 51 / 10000, br = 1 / 2, adverse_max_speed = 72\<rparr>"
      "\<lparr>weight_kg = 20000, weight_cos = 20000, weight_sin = 0\<rparr>"]
  obtain r where "calc_max_speed 0 3 (\<lambda>x. if even (unat x) then - 5 else 5)
     \<lparr>length_sum = 8, tiles = 1, weight = 20000, max_speed = 72\<rparr>
     \<lparr>cf = 13, fr = 51 / 10000, br = 1 / 2, adverse_max_speed = 72\<rparr>
     \<lparr>weight_kg = 20000, weight_cos = 20000, weight_sin = 0\<rparr> = Some r"
    and "sint r \<le> sint (max_speed \<lparr>length_sum = 8, tiles = 1, weight = 20000, max_speed = 72\<rparr>)"
    by blast
  with e show ?thesis by simp
qed

end
